theory Spec2Isabelle
  imports Main
begin

section \<open>Values, errors and the pandas objects handled by \<^verbatim>\<open>recordlinkage/fuse.py\<close>\<close>

text \<open>
  Python values that reach the fusion engine: cell contents, record ids, column labels and
  the tuples handed to a conflict resolution function. \<open>VNaN\<close> is the missing value pandas
  fills in when it aligns columns of different length.
\<close>

datatype val = VNaN | VInt int | VStr string | VList "val list" | VTuple "val list"

text \<open>
  Exceptions as values. \<open>KeyError\<close> and \<open>IndexError\<close> are Python's two \<open>LookupError\<close>
  classes.
\<close>

datatype error =
    AssertionError string
  | ValueError string
  | TypeError string
  | AttributeError string
  | KeyError val
  | IndexError

fun is_lookup_error :: "error \<Rightarrow> bool" where
  "is_lookup_error (KeyError k) = True"
| "is_lookup_error IndexError = True"
| "is_lookup_error e = False"

text \<open>
  A pandas Series is its index labels paired with its values, in row order. A DataFrame is
  its row labels and its columns by label; a column holds one value per row.
\<close>

type_synonym series = "(val \<times> val) list"

record frame =
  fr_index :: "val list"
  fr_columns :: "(val \<times> val list) list"

text \<open>
  \<^verbatim>\<open>df[name]\<close>: the column as a Series over the frame's row labels, KeyError when absent.
  This is what pandas returns for a label that one column carries. For a label that
  several columns carry pandas returns a DataFrame instead; the statements below are about
  frames whose column labels are distinct.
\<close>

definition frame_getitem :: "frame \<Rightarrow> val \<Rightarrow> error + series" where
  "frame_getitem df name =
     (case map_of (fr_columns df) name of
        None \<Rightarrow> Inl (KeyError name)
      | Some vs \<Rightarrow> Inr (zip (fr_index df) vs))"

text \<open>
  \<^verbatim>\<open>s.loc[labels]\<close> with a list of labels: the rows carrying each requested label, in the
  order requested; a label the Series does not have is a KeyError.
\<close>

fun series_loc :: "series \<Rightarrow> val list \<Rightarrow> error + series" where
  "series_loc s [] = Inr []"
| "series_loc s (l # ls) =
     (case filter (\<lambda>row. fst row = l) s of
        [] \<Rightarrow> Inl (KeyError l)
      | r # rs \<Rightarrow>
          (case series_loc s ls of
             Inl e \<Rightarrow> Inl e
           | Inr rest \<Rightarrow> Inr ((r # rs) @ rest)))"

text \<open>\<^verbatim>\<open>pd.Series(data)\<close>: the default index numbers the rows \<open>0, 1, ...\<close>.\<close>

definition range_index :: "nat \<Rightarrow> val list" where
  "range_index n = map (\<lambda>i. VInt (int i)) [0..<n]"

definition pd_Series :: "val list \<Rightarrow> series" where
  "pd_Series data = zip (range_index (length data)) data"

text \<open>\<^verbatim>\<open>pd.Series(data, index=labels)\<close>: the lengths have to agree.\<close>

definition pd_Series_index :: "val list \<Rightarrow> val list \<Rightarrow> error + series" where
  "pd_Series_index data labels =
     (if length data = length labels then Inr (zip labels data)
      else Inl (ValueError ''Length of values does not match length of index''))"

text \<open>\<^verbatim>\<open>s.apply(f)\<close> for a one-argument function: elementwise, labels kept.\<close>

definition series_apply :: "(val \<Rightarrow> val) \<Rightarrow> series \<Rightarrow> series" where
  "series_apply f s = map (\<lambda>row. (fst row, f (snd row))) s"

text \<open>
  \<^verbatim>\<open>zip(*columns)\<close>: one row per position, as long as the shortest column; no column at all
  gives no row.
\<close>

fun zip_star :: "'a list list \<Rightarrow> 'a list list" where
  "zip_star [] = []"
| "zip_star [c] = map (\<lambda>x. [x]) c"
| "zip_star (c # d # cs) = map (\<lambda>xr. fst xr # snd xr) (zip c (zip_star (d # cs)))"

text \<open>
  \<^verbatim>\<open>pd.concat(objs, axis=1)\<close> on Series with unique labels: an empty list is a ValueError;
  otherwise the rows are the union of the labels, the columns are numbered in list order,
  and a Series without a label gets NaN there. Where the Series carry the same labels the
  cells are the values of the Series. Where a column is padded with NaN pandas may also
  change the type of its other cells (integers become floats), which \<open>val\<close> does not
  express; the statements below are about Series with the same labels.
\<close>

definition index_union :: "val list \<Rightarrow> val list \<Rightarrow> val list" where
  "index_union xs ys = xs @ filter (\<lambda>l. l \<notin> set xs) ys"

definition series_get :: "series \<Rightarrow> val \<Rightarrow> val" where
  "series_get s l = (case map_of s l of None \<Rightarrow> VNaN | Some v \<Rightarrow> v)"

definition pd_concat :: "series list \<Rightarrow> error + frame" where
  "pd_concat objs =
     (if objs = [] then Inl (ValueError ''No objects to concatenate'')
      else
        (let ix = foldl index_union [] (map (map fst) objs) in
         Inr \<lparr>fr_index = ix,
              fr_columns = map (\<lambda>js. (VInt (int (fst js)), map (series_get (snd js)) ix))
                               (enumerate 0 objs)\<rparr>))"

text \<open>
  The comparison vectors handed to \<^verbatim>\<open>fuse\<close>: a frame whose row index is a two-level
  MultiIndex, the pair index. Each level may carry a name.
\<close>

record multi_index =
  mi_names :: "val option \<times> val option"
  mi_pairs :: "(val \<times> val) list"

record pair_vectors =
  pv_index :: multi_index
  pv_columns :: "(val \<times> val list) list"

text \<open>
  \<^verbatim>\<open>MultiIndex.to_frame()\<close>: one column per level, labelled by the level's name, or by the
  level's position when it has no name; the rows are labelled by the pairs themselves.
  pandas refuses to build a frame with the same label on both columns.
\<close>

definition level_label :: "int \<Rightarrow> val option \<Rightarrow> val" where
  "level_label k name = (case name of None \<Rightarrow> VInt k | Some n \<Rightarrow> n)"

definition to_frame :: "multi_index \<Rightarrow> error + frame" where
  "to_frame mi =
     (if level_label 0 (fst (mi_names mi)) = level_label 1 (snd (mi_names mi))
      then Inl (ValueError
                  ''Cannot create duplicate column labels if allow_duplicates is False'')
      else Inr \<lparr>fr_index = map (\<lambda>p. VTuple [fst p, snd p]) (mi_pairs mi),
                fr_columns = [(level_label 0 (fst (mi_names mi)), map fst (mi_pairs mi)),
                              (level_label 1 (snd (mi_names mi)), map snd (mi_pairs mi))]\<rparr>)"

section \<open>Resolution jobs and the engine state\<close>

text \<open>
  A conflict resolution function is called as \<^verbatim>\<open>fun(record, *params)\<close>. The library's
  \<^verbatim>\<open>choose_random\<close> draws from Python's global random generator, so a strategy takes
  the generator's state and returns the state it leaves.
\<close>

type_synonym rng = nat

type_synonym strategy = "val \<Rightarrow> val list \<Rightarrow> rng \<Rightarrow> val \<times> rng"

text \<open>What the caller passes as a transform: a one-argument function, or some other object.\<close>

datatype transform = Callable "val \<Rightarrow> val" | NotCallable val

fun callable :: "transform \<Rightarrow> bool" where
  "callable (Callable f) = True"
| "callable (NotCallable v) = False"

text \<open>The test \<^verbatim>\<open>transform is not None and callable(transform) is not True\<close> (lines 175, 178).\<close>

fun not_callable :: "transform option \<Rightarrow> bool" where
  "not_callable None = False"
| "not_callable (Some t) = (\<not> callable t)"

text \<open>The dict appended by \<^verbatim>\<open>queue_resolve\<close>; Python's \<open>None\<close> is \<open>None\<close>.\<close>

record job =
  job_fun :: strategy
  job_values_a :: val
  job_values_b :: val
  job_meta_a :: "val option"
  job_meta_b :: "val option"
  job_transform_vals :: "transform option"
  job_transform_meta :: "transform option"
  job_static_meta :: bool
  job_params :: "val list option"
  job_kwargs :: "(string \<times> val) list"

datatype fuse_class = FuseCore | FuseClusters string | FuseLinks bool bool

record fuse_core =
  cls :: fuse_class
  vectors :: "pair_vectors option"
  index :: "frame option"
  predictions :: "val list option"
  df_a :: "frame option"
  df_b :: "frame option"
  suffix_a :: "string option"
  suffix_b :: "string option"
  resolution_queue :: "job list"

definition new_engine :: "fuse_class \<Rightarrow> fuse_core" where
  "new_engine c =
     \<lparr>cls = c, vectors = None, index = None, predictions = None, df_a = None, df_b = None,
      suffix_a = None, suffix_b = None, resolution_queue = []\<rparr>"

definition queue_resolve ::
  "fuse_core \<Rightarrow> strategy \<Rightarrow> val \<Rightarrow> val \<Rightarrow> val option \<Rightarrow> val option \<Rightarrow> transform option \<Rightarrow>
   transform option \<Rightarrow> bool \<Rightarrow> val list option \<Rightarrow> (string \<times> val) list \<Rightarrow> fuse_core" where
  "queue_resolve self f values_a values_b meta_a meta_b transform_vals transform_meta
                 static_meta params kwargs =
     self\<lparr>resolution_queue := resolution_queue self @
            [\<lparr>job_fun = f, job_values_a = values_a, job_values_b = values_b,
              job_meta_a = meta_a, job_meta_b = meta_b,
              job_transform_vals = transform_vals, job_transform_meta = transform_meta,
              job_static_meta = static_meta, job_params = params, job_kwargs = kwargs\<rparr>]\<rparr>"

text \<open>
  The realizations queue a job with the defaults of \<^verbatim>\<open>queue_resolve\<close> for every argument
  they leave out: \<^verbatim>\<open>meta_a=None, meta_b=None, transform_vals=None, transform_meta=None,
  static_meta=False, params=None\<close>. The strategies themselves live in
  \<^verbatim>\<open>recordlinkage.algorithms.conflict_resolution\<close> and are parameters here.
\<close>

definition trust_your_friends :: "strategy \<Rightarrow> fuse_core \<Rightarrow> val \<Rightarrow> val \<Rightarrow> val \<Rightarrow> fuse_core" where
  "trust_your_friends choose_fn self c1 c2 trusted =
     queue_resolve self choose_fn c1 c2 (Some (VStr ''a'')) (Some (VStr ''b'')) None None True
                   (Some [trusted]) []"

definition no_gossiping :: "strategy \<Rightarrow> fuse_core \<Rightarrow> val \<Rightarrow> val \<Rightarrow> fuse_core" where
  "no_gossiping no_gossip_fn self c1 c2 =
     queue_resolve self no_gossip_fn c1 c2 None None None None False None []"

definition roll_the_dice :: "strategy \<Rightarrow> fuse_core \<Rightarrow> val \<Rightarrow> val \<Rightarrow> fuse_core" where
  "roll_the_dice choose_random_fn self c1 c2 =
     queue_resolve self choose_random_fn c1 c2 None None None None False None []"

definition cry_with_the_wolves :: "strategy \<Rightarrow> fuse_core \<Rightarrow> val \<Rightarrow> val \<Rightarrow> fuse_core" where
  "cry_with_the_wolves vote_fn self c1 c2 =
     queue_resolve self vote_fn c1 c2 None None None None False None []"

section \<open>FuseLinks: building the resolution series\<close>

text \<open>
  Modelled from the spec: \<^verbatim>\<open>listify\<close> is imported from \<^verbatim>\<open>recordlinkage.utils\<close>, which is
  not among the sources. The spec types \<open>values_a\<close>, \<open>values_b\<close> and non-static metadata as
  lists of column names; \<^verbatim>\<open>listify\<close> leaves a list as it is and wraps any other value in
  a one-element list.
\<close>

fun listify :: "val \<Rightarrow> val list" where
  "listify (VList xs) = xs"
| "listify (VTuple xs) = xs"
| "listify x = [x]"

text \<open>\<^verbatim>\<open>self.index[k]\<close> and \<^verbatim>\<open>len(self.index)\<close>; before \<^verbatim>\<open>_fusion_init\<close> the field is None.\<close>

definition index_getitem :: "frame option \<Rightarrow> val \<Rightarrow> error + series" where
  "index_getitem ix k =
     (case ix of
        None \<Rightarrow> Inl (TypeError ''NoneType object is not subscriptable'')
      | Some f \<Rightarrow> frame_getitem f k)"

definition index_len :: "frame option \<Rightarrow> error + nat" where
  "index_len ix =
     (case ix of
        None \<Rightarrow> Inl (TypeError ''object of type NoneType has no len()'')
      | Some f \<Rightarrow> Inr (length (fr_index f)))"

text \<open>
  The loop \<^verbatim>\<open>for name in names: data.append(df[name].loc[list(self.index[k])])\<close>
  (lines 242-245, 255-258, 287-290, 305-308).
\<close>

fun collect_direct :: "frame \<Rightarrow> frame option \<Rightarrow> val \<Rightarrow> val list \<Rightarrow> error + series list" where
  "collect_direct df ix k [] = Inr []"
| "collect_direct df ix k (name # names) =
     (case frame_getitem df name of
        Inl e \<Rightarrow> Inl e
      | Inr col \<Rightarrow>
          (case index_getitem ix k of
             Inl e \<Rightarrow> Inl e
           | Inr half \<Rightarrow>
               (case series_loc col (map snd half) of
                  Inl e \<Rightarrow> Inl e
                | Inr s \<Rightarrow>
                    (case collect_direct df ix k names of
                       Inl e \<Rightarrow> Inl e
                     | Inr rest \<Rightarrow> Inr (s # rest)))))"

text \<open>
  The loop \<^verbatim>\<open>for _ in range(n): data.append(df[names[0]])\<close>
  (lines 237-240, 250-253, 282-285, 300-303): the whole column, as the table has it.
\<close>

fun collect_generalized :: "frame \<Rightarrow> val list \<Rightarrow> nat \<Rightarrow> error + series list" where
  "collect_generalized df names 0 = Inr []"
| "collect_generalized df names (Suc n) =
     (case names of
        [] \<Rightarrow> Inl IndexError
      | name0 # others \<Rightarrow>
          (case frame_getitem df name0 of
             Inl e \<Rightarrow> Inl e
           | Inr col \<Rightarrow>
               (case collect_generalized df names n of
                  Inl e \<Rightarrow> Inl e
                | Inr rest \<Rightarrow> Inr (col # rest))))"

text \<open>
  The loop \<^verbatim>\<open>for _ in range(n): metadata.append(pd.Series([meta for _ in
  range(len(self.index))], index=self.index[k]))\<close> (lines 277-280, 295-298).
\<close>

fun collect_static :: "frame option \<Rightarrow> val \<Rightarrow> val \<Rightarrow> nat \<Rightarrow> error + series list" where
  "collect_static ix k c 0 = Inr []"
| "collect_static ix k c (Suc n) =
     (case index_len ix of
        Inl e \<Rightarrow> Inl e
      | Inr len \<Rightarrow>
          (case index_getitem ix k of
             Inl e \<Rightarrow> Inl e
           | Inr half \<Rightarrow>
               (case pd_Series_index (replicate len c) (map snd half) of
                  Inl e \<Rightarrow> Inl e
                | Inr s \<Rightarrow>
                    (case collect_static ix k c n of
                       Inl e \<Rightarrow> Inl e
                     | Inr rest \<Rightarrow> Inr (s # rest)))))"

text \<open>\<^verbatim>\<open>[s.apply(transform) for s in data]\<close> when a transform is given (lines 265-266, 315-316).\<close>

definition apply_transform :: "transform option \<Rightarrow> series list \<Rightarrow> error + series list" where
  "apply_transform t data =
     (case t of
        None \<Rightarrow> Inr data
      | Some (Callable f) \<Rightarrow> Inr (map (series_apply f) data)
      | Some (NotCallable v) \<Rightarrow>
          (if data = [] then Inr [] else Inl (TypeError ''object is not callable'')))"

text \<open>
  Lines 199-232: the four flags are \<open>True\<close>/\<open>False\<close> when metadata columns are in use and
  \<open>None\<close> otherwise. The first component is \<open>generalize_values\<close>, the second
  \<open>generalize_meta\<close>, for one side. The warnings logged on a mismatch have no effect on
  the result and are left out.
\<close>

definition generalize_flags :: "val list \<Rightarrow> val list \<Rightarrow> bool option \<times> bool option" where
  "generalize_flags vals meta =
     (if length vals < length meta then (Some True, Some False)
      else if length vals > length meta then (Some False, Some True)
      else (Some False, Some False))"

text \<open>Lines 234-269: the value series of both sides, transformed and zipped into tuples.\<close>

definition make_value_data ::
  "frame option \<Rightarrow> frame \<Rightarrow> frame \<Rightarrow> val list \<Rightarrow> val list \<Rightarrow> val list \<Rightarrow> val list \<Rightarrow>
   bool option \<Rightarrow> bool option \<Rightarrow> transform option \<Rightarrow> error + val list" where
  "make_value_data ix dfa dfb values_a values_b meta_a meta_b
                   generalize_values_a generalize_values_b transform_vals =
     (case (if generalize_values_a = Some True
            then collect_generalized dfa values_a (length meta_a)
            else collect_direct dfa ix (VInt 0) values_a) of
        Inl e \<Rightarrow> Inl e
      | Inr data_a \<Rightarrow>
          (case (if generalize_values_b = Some True
                 then collect_generalized dfb values_b (length meta_b)
                 else collect_direct dfb ix (VInt 1) values_b) of
             Inl e \<Rightarrow> Inl e
           | Inr data_b \<Rightarrow>
               (case apply_transform transform_vals (data_a @ data_b) of
                  Inl e \<Rightarrow> Inl e
                | Inr value_data \<Rightarrow> Inr (map VTuple (zip_star (map (map snd) value_data))))))"

text \<open>
  Lines 272-319: the metadata series of both sides. With \<open>static_meta\<close> the arguments
  \<open>meta_a\<close> and \<open>meta_b\<close> are used as they were passed; otherwise they have been listified
  (lines 193-194).
\<close>

definition make_metadata ::
  "frame option \<Rightarrow> frame \<Rightarrow> frame \<Rightarrow> val list \<Rightarrow> val list \<Rightarrow> val \<Rightarrow> val \<Rightarrow> bool \<Rightarrow>
   bool option \<Rightarrow> bool option \<Rightarrow> transform option \<Rightarrow> error + val list" where
  "make_metadata ix dfa dfb values_a values_b meta_a meta_b static_meta
                 generalize_meta_a generalize_meta_b transform_meta =
     (case (if static_meta then collect_static ix (VInt 0) meta_a (length values_a)
            else if generalize_meta_a = Some True
            then collect_generalized dfa (listify meta_a) (length values_a)
            else collect_direct dfa ix (VInt 0) (listify meta_a)) of
        Inl e \<Rightarrow> Inl e
      | Inr metadata_a \<Rightarrow>
          (case (if static_meta then collect_static ix (VInt 1) meta_b (length values_b)
                 else if generalize_meta_b = Some True
                 then collect_generalized dfb (listify meta_b) (length values_b)
                 else collect_direct dfb ix (VInt 1) (listify meta_b)) of
             Inl e \<Rightarrow> Inl e
           | Inr metadata_b \<Rightarrow>
               (case apply_transform transform_meta (metadata_a @ metadata_b) of
                  Inl e \<Rightarrow> Inl e
                | Inr metadata \<Rightarrow> Inr (map VTuple (zip_star (map (map snd) metadata))))))"

text \<open>
  \<^verbatim>\<open>FuseLinks._make_resolution_series\<close> (lines 166-328). The three outcomes of lines
  186-196 are the cases of the pair \<open>(meta_a, meta_b)\<close>: metadata on one side only raises,
  no metadata leaves \<open>use_meta\<close> false, and metadata on both sides is listified unless it
  is static. The metadata lists handed to \<open>make_value_data\<close> are read only where
  \<open>generalize_values\<close> is \<open>True\<close>, which static or absent metadata excludes.
\<close>

definition FuseLinks_make_resolution_series ::
  "fuse_core \<Rightarrow> val \<Rightarrow> val \<Rightarrow> val option \<Rightarrow> val option \<Rightarrow> transform option \<Rightarrow>
   transform option \<Rightarrow> bool \<Rightarrow> error + series" where
  "FuseLinks_make_resolution_series self values_a values_b meta_a meta_b
                                    transform_vals transform_meta static_meta =
     (case df_a self of
        None \<Rightarrow> Inl (AssertionError ''df_a is None'')
      | Some dfa \<Rightarrow>
     (case df_b self of
        None \<Rightarrow> Inl (AssertionError ''df_b is None'')
      | Some dfb \<Rightarrow>
     (if not_callable transform_vals
      then Inl (ValueError ''transform_vals must be callable.'')
      else if not_callable transform_meta
      then Inl (ValueError ''transform_meta must be callable.'')
      else
        (let values_a = listify values_a; values_b = listify values_b in
         (case (meta_a, meta_b) of
            (None, Some mb) \<Rightarrow>
              Inl (AssertionError ''Metadata was given for one Data Frame but not the other.'')
          | (Some ma, None) \<Rightarrow>
              Inl (AssertionError ''Metadata was given for one Data Frame but not the other.'')
          | (None, None) \<Rightarrow>
              (case make_value_data (index self) dfa dfb values_a values_b [] []
                      None None transform_vals of
                 Inl e \<Rightarrow> Inl e
               | Inr value_data \<Rightarrow> Inr (pd_Series (map (\<lambda>v. VTuple [v]) value_data)))
          | (Some ma, Some mb) \<Rightarrow>
              (let ga = (if static_meta then (None, None)
                         else generalize_flags values_a (listify ma));
                   gb = (if static_meta then (None, None)
                         else generalize_flags values_b (listify mb))
               in
               (case make_value_data (index self) dfa dfb values_a values_b
                       (listify ma) (listify mb) (fst ga) (fst gb) transform_vals of
                  Inl e \<Rightarrow> Inl e
                | Inr value_data \<Rightarrow>
                    (case make_metadata (index self) dfa dfb values_a values_b ma mb
                            static_meta (snd ga) (snd gb) transform_meta of
                       Inl e \<Rightarrow> Inl e
                     | Inr metadata \<Rightarrow>
                         Inr (pd_Series (map (\<lambda>vm. VTuple [fst vm, snd vm])
                                             (zip value_data metadata)))))))))))"

section \<open>FuseCore: resolving the queue\<close>

text \<open>
  \<^verbatim>\<open>self._make_resolution_series(...)\<close> as \<^verbatim>\<open>fuse\<close> calls it: the base class returns an
  empty Series, \<^verbatim>\<open>FuseClusters\<close> returns None, \<^verbatim>\<open>FuseLinks\<close> builds the aligned records.
\<close>

definition make_resolution_series ::
  "fuse_core \<Rightarrow> val \<Rightarrow> val \<Rightarrow> val option \<Rightarrow> val option \<Rightarrow> transform option \<Rightarrow>
   transform option \<Rightarrow> bool \<Rightarrow> error + series option" where
  "make_resolution_series self values_a values_b meta_a meta_b
                          transform_vals transform_meta static_meta =
     (case cls self of
        FuseCore \<Rightarrow> Inr (Some [])
      | FuseClusters method \<Rightarrow> Inr None
      | FuseLinks unique_a unique_b \<Rightarrow>
          (case FuseLinks_make_resolution_series self values_a values_b meta_a meta_b
                  transform_vals transform_meta static_meta of
             Inl e \<Rightarrow> Inl e
           | Inr s \<Rightarrow> Inr (Some s)))"

text \<open>The call at lines 125-131: the fields of the job dict as arguments.\<close>

definition job_series :: "fuse_core \<Rightarrow> job \<Rightarrow> error + series option" where
  "job_series self j =
     make_resolution_series self (job_values_a j) (job_values_b j) (job_meta_a j)
       (job_meta_b j) (job_transform_vals j) (job_transform_meta j) (job_static_meta j)"

text \<open>
  \<^verbatim>\<open>data.apply(fun, args=params)\<close>: pandas calls \<^verbatim>\<open>fun(x, *args)\<close> on the values in row
  order and keeps the labels; \<^verbatim>\<open>args=None\<close> is taken as no extra argument.
\<close>

fun star_args :: "val list option \<Rightarrow> val list" where
  "star_args None = []"
| "star_args (Some ps) = ps"

fun series_apply_args :: "strategy \<Rightarrow> val list \<Rightarrow> series \<Rightarrow> rng \<Rightarrow> series \<times> rng" where
  "series_apply_args f args [] g = ([], g)"
| "series_apply_args f args (row # rows) g =
     (case f (snd row) args g of
        (y, g1) \<Rightarrow>
          (case series_apply_args f args rows g1 of
             (ys, g2) \<Rightarrow> ((fst row, y) # ys, g2)))"

definition resolve ::
  "fuse_core \<Rightarrow> strategy \<Rightarrow> series \<Rightarrow> val list option \<Rightarrow> rng \<Rightarrow> series \<times> rng" where
  "resolve self f data params g =
     series_apply_args f (star_args params) data g"

text \<open>
  \<^verbatim>\<open>_fusion_init\<close> (lines 95-102): the error raised, if any, and the engine as the call
  leaves it. When \<^verbatim>\<open>to_frame\<close> raises at line 97 only \<^verbatim>\<open>self.vectors\<close> has been assigned.
\<close>

definition fusion_init ::
  "fuse_core \<Rightarrow> pair_vectors \<Rightarrow> frame option \<Rightarrow> frame option \<Rightarrow> val list option \<Rightarrow>
   string \<Rightarrow> string \<Rightarrow> error option \<times> fuse_core" where
  "fusion_init self vecs dfa dfb preds sfx_a sfx_b =
     (case to_frame (pv_index vecs) of
        Inl e \<Rightarrow> (Some e, self\<lparr>vectors := Some vecs\<rparr>)
      | Inr f \<Rightarrow>
          (None, self\<lparr>vectors := Some vecs,
                      index := Some f,
                      predictions := preds,
                      df_a := dfa,
                      df_b := dfb,
                      suffix_a := Some sfx_a,
                      suffix_b := Some sfx_b\<rparr>))"

definition fusion_setup :: "fuse_core \<Rightarrow> fuse_core" where
  "fusion_setup self = self"

text \<open>The loop of \<^verbatim>\<open>fuse\<close> over the queue (lines 120-133); the first exception ends it.\<close>

fun resolve_queue :: "fuse_core \<Rightarrow> job list \<Rightarrow> rng \<Rightarrow> (error + series list) \<times> rng" where
  "resolve_queue self [] g = (Inr [], g)"
| "resolve_queue self (j # jobs) g =
     (case job_series self j of
        Inl e \<Rightarrow> (Inl e, g)
      | Inr None \<Rightarrow> (Inl (AttributeError ''NoneType object has no attribute apply''), g)
      | Inr (Some data) \<Rightarrow>
          (case resolve self (job_fun j) data (job_params j) g of
             (col, g1) \<Rightarrow>
               (case resolve_queue self jobs g1 of
                  (Inl e, g2) \<Rightarrow> (Inl e, g2)
                | (Inr fused, g2) \<Rightarrow> (Inr (col # fused), g2))))"

text \<open>
  \<^verbatim>\<open>FuseCore.fuse\<close> (lines 104-135): the result, the engine as the call leaves it, and the
  state of the random generator.
\<close>

definition fuse ::
  "fuse_core \<Rightarrow> pair_vectors \<Rightarrow> frame option \<Rightarrow> frame option \<Rightarrow> val list option \<Rightarrow>
   string \<Rightarrow> string \<Rightarrow> rng \<Rightarrow> (error + frame) \<times> fuse_core \<times> rng" where
  "fuse self vecs dfa dfb preds sfx_a sfx_b g =
     (case fusion_init self vecs dfa dfb preds sfx_a sfx_b of
        (Some e, self1) \<Rightarrow> (Inl e, self1, g)
      | (None, self1) \<Rightarrow>
          (let self2 = fusion_setup self1 in
           (case resolve_queue self2 (resolution_queue self2) g of
              (Inl e, g1) \<Rightarrow> (Inl e, self2, g1)
            | (Inr fused, g1) \<Rightarrow> (pd_concat fused, self2, g1))))"

section \<open>Notions used in the statements\<close>

text \<open>The five errors raised by the checks at lines 169-187.\<close>

definition is_validation_error :: "error \<Rightarrow> bool" where
  "is_validation_error e =
     (e = AssertionError ''df_a is None'' \<or>
      e = AssertionError ''df_b is None'' \<or>
      e = ValueError ''transform_vals must be callable.'' \<or>
      e = ValueError ''transform_meta must be callable.'' \<or>
      e = AssertionError ''Metadata was given for one Data Frame but not the other.'')"

text \<open>
  A source table is missing, a supplied transform is not callable, or metadata is given
  for exactly one side.
\<close>

definition validation_fails ::
  "fuse_core \<Rightarrow> val option \<Rightarrow> val option \<Rightarrow> transform option \<Rightarrow> transform option \<Rightarrow> bool" where
  "validation_fails self meta_a meta_b transform_vals transform_meta =
     (df_a self = None \<or> df_b self = None \<or>
      not_callable transform_vals \<or> not_callable transform_meta \<or>
      (meta_a = None) \<noteq> (meta_b = None))"

text \<open>
  A pure strategy neither reads nor advances the random generator: its result is the same
  in every generator state, and it hands the state back unchanged.
\<close>

definition pure_strategy :: "strategy \<Rightarrow> bool" where
  "pure_strategy f = (\<forall>x args g. f x args g = (fst (f x args 0), g))"

text \<open>
  The engine state in which \<^verbatim>\<open>fuse\<close> works through the queue, after \<^verbatim>\<open>_fusion_init\<close> and
  \<^verbatim>\<open>_fusion_setup\<close>.
\<close>

definition run_state ::
  "fuse_core \<Rightarrow> pair_vectors \<Rightarrow> frame option \<Rightarrow> frame option \<Rightarrow> val list option \<Rightarrow>
   string \<Rightarrow> string \<Rightarrow> fuse_core" where
  "run_state self vecs dfa dfb preds sfx_a sfx_b =
     fusion_setup (snd (fusion_init self vecs dfa dfb preds sfx_a sfx_b))"

text \<open>
  The list \<^verbatim>\<open>fused\<close> of per-job output columns that \<^verbatim>\<open>fuse\<close> hands to \<^verbatim>\<open>pd.concat\<close>, or the
  error that keeps \<^verbatim>\<open>fuse\<close> from getting there.
\<close>

definition fused_columns ::
  "fuse_core \<Rightarrow> pair_vectors \<Rightarrow> frame option \<Rightarrow> frame option \<Rightarrow> val list option \<Rightarrow>
   string \<Rightarrow> string \<Rightarrow> rng \<Rightarrow> error + series list" where
  "fused_columns self vecs dfa dfb preds sfx_a sfx_b g =
     (case fst (fusion_init self vecs dfa dfb preds sfx_a sfx_b) of
        Some e \<Rightarrow> Inl e
      | None \<Rightarrow>
          fst (resolve_queue (run_state self vecs dfa dfb preds sfx_a sfx_b)
                 (resolution_queue self) g))"

text \<open>The row labels of the pair index: one \<open>(A-id, B-id)\<close> tuple per pair.\<close>

definition pair_labels :: "pair_vectors \<Rightarrow> val list" where
  "pair_labels vecs = map (\<lambda>p. VTuple [fst p, snd p]) (mi_pairs (pv_index vecs))"

text \<open>
  The scenario of the specification: \<open>A = {id1: {name: Jon}}\<close>, \<open>B = {id2: {name: John}}\<close>,
  pair index \<open>[(id1, id2)]\<close>. The strategy \<open>first_value\<close> returns the first candidate
  value of the record it is given.
\<close>

definition scenario_a :: frame where
  "scenario_a = \<lparr>fr_index = [VStr ''id1''], fr_columns = [(VStr ''name'', [VStr ''Jon''])]\<rparr>"

definition scenario_b :: frame where
  "scenario_b = \<lparr>fr_index = [VStr ''id2''], fr_columns = [(VStr ''name'', [VStr ''John''])]\<rparr>"

definition scenario_vectors :: pair_vectors where
  "scenario_vectors =
     \<lparr>pv_index = \<lparr>mi_names = (None, None), mi_pairs = [(VStr ''id1'', VStr ''id2'')]\<rparr>,
      pv_columns = []\<rparr>"

fun first_value :: strategy where
  "first_value (VTuple (VTuple (v # vs) # rest)) args g = (v, g)"
| "first_value x args g = (VNaN, g)"

text \<open>An engine with one job on the \<open>name\<close> columns, queued without metadata or parameters.\<close>

definition scenario_engine :: fuse_core where
  "scenario_engine =
     no_gossiping first_value (new_engine (FuseLinks False False)) (VStr ''name'') (VStr ''name'')"

text \<open>What a transform makes of a value; without a transform the value is left as it is.\<close>

fun transformed :: "transform option \<Rightarrow> val \<Rightarrow> val" where
  "transformed (Some (Callable f)) v = f v"
| "transformed t v = v"

text \<open>
  Tables as the data model describes them: keyed by record id, with named columns, every
  column with one value per record. \<open>cell df c r\<close> is the value of column \<open>c\<close> at
  record \<open>r\<close>.
\<close>

definition distinct_columns :: "frame \<Rightarrow> bool" where
  "distinct_columns df = distinct (map fst (fr_columns df))"

definition well_formed_table :: "frame \<Rightarrow> bool" where
  "well_formed_table df =
     (distinct (fr_index df) \<and> distinct_columns df \<and>
      list_all (\<lambda>col. length (snd col) = length (fr_index df)) (fr_columns df))"

definition has_columns :: "frame \<Rightarrow> val list \<Rightarrow> bool" where
  "has_columns df names = list_all (\<lambda>n. map_of (fr_columns df) n \<noteq> None) names"

definition has_records :: "frame \<Rightarrow> val list \<Rightarrow> bool" where
  "has_records df ids = list_all (\<lambda>r. r \<in> set (fr_index df)) ids"

definition cell :: "frame \<Rightarrow> val \<Rightarrow> val \<Rightarrow> val" where
  "cell df c r =
     (case map_of (fr_columns df) c of
        None \<Rightarrow> VNaN
      | Some vs \<Rightarrow> series_get (zip (fr_index df) vs) r)"

text \<open>
  The tuple of one pair over the columns \<open>cols_a\<close> of table A and \<open>cols_b\<close> of table B:
  the A columns at the pair's A record, then the B columns at its B record, each in the
  declared order.
\<close>

definition pair_tuple ::
  "frame \<Rightarrow> frame \<Rightarrow> val list \<Rightarrow> val list \<Rightarrow> transform option \<Rightarrow> val \<times> val \<Rightarrow> val" where
  "pair_tuple dfa dfb cols_a cols_b t p =
     VTuple (map (\<lambda>c. transformed t (cell dfa c (fst p))) cols_a @
             map (\<lambda>c. transformed t (cell dfb c (snd p))) cols_b)"

text \<open>The metadata tuple of a job with static metadata: one slot per value column.\<close>

definition static_tuple ::
  "val list \<Rightarrow> val list \<Rightarrow> val \<Rightarrow> val \<Rightarrow> transform option \<Rightarrow> val" where
  "static_tuple values_a values_b meta_a meta_b t =
     VTuple (replicate (length values_a) (transformed t meta_a) @
             replicate (length values_b) (transformed t meta_b))"

text \<open>
  The aligned pair record of one pair when nothing is generalized: the values tuple alone
  without metadata, else the values tuple and the metadata tuple.
\<close>

definition direct_record ::
  "frame \<Rightarrow> frame \<Rightarrow> val list \<Rightarrow> val list \<Rightarrow> val option \<Rightarrow> val option \<Rightarrow>
   transform option \<Rightarrow> transform option \<Rightarrow> bool \<Rightarrow> val \<times> val \<Rightarrow> val" where
  "direct_record dfa dfb values_a values_b meta_a meta_b transform_vals transform_meta
                 static_meta p =
     (case (meta_a, meta_b) of
        (Some ma, Some mb) \<Rightarrow>
          VTuple [pair_tuple dfa dfb values_a values_b transform_vals p,
                  if static_meta then static_tuple values_a values_b ma mb transform_meta
                  else pair_tuple dfa dfb (listify ma) (listify mb) transform_meta p]
      | _ \<Rightarrow> VTuple [pair_tuple dfa dfb values_a values_b transform_vals p])"

text \<open>
  No side of the job is generalized: there is no metadata, or it is static, or each side
  has as many metadata columns as value columns. In the last case the metadata columns
  have to exist as well.
\<close>

definition fetched_directly ::
  "frame \<Rightarrow> frame \<Rightarrow> val list \<Rightarrow> val list \<Rightarrow> val option \<Rightarrow> val option \<Rightarrow> bool \<Rightarrow> bool" where
  "fetched_directly dfa dfb values_a values_b meta_a meta_b static_meta =
     (case (meta_a, meta_b) of
        (None, None) \<Rightarrow> True
      | (Some ma, Some mb) \<Rightarrow>
          static_meta \<or>
          (length values_a = length (listify ma) \<and> length values_b = length (listify mb) \<and>
           has_columns dfa (listify ma) \<and> has_columns dfb (listify mb))
      | _ \<Rightarrow> False)"

text \<open>
  The aligned sequence as the specification describes it for such a job: one aligned pair
  record per pair, in pair order, under the default labels. Without any value column there
  is nothing to zip and the sequence is empty.
\<close>

definition direct_series ::
  "frame \<Rightarrow> frame \<Rightarrow> val list \<Rightarrow> val list \<Rightarrow> val option \<Rightarrow> val option \<Rightarrow>
   transform option \<Rightarrow> transform option \<Rightarrow> bool \<Rightarrow> (val \<times> val) list \<Rightarrow> series" where
  "direct_series dfa dfb values_a values_b meta_a meta_b transform_vals transform_meta
                 static_meta pairs =
     (if values_a = [] \<and> values_b = [] then []
      else pd_Series (map (direct_record dfa dfb values_a values_b meta_a meta_b
                             transform_vals transform_meta static_meta) pairs))"

text \<open>
  A job that passes validation and names only columns its tables have; where one side is
  generalized, the list whose first column is repeated is not empty.
\<close>

definition valid_job :: "frame \<Rightarrow> frame \<Rightarrow> job \<Rightarrow> bool" where
  "valid_job dfa dfb j =
     (\<not> not_callable (job_transform_vals j) \<and> \<not> not_callable (job_transform_meta j) \<and>
      has_columns dfa (listify (job_values_a j)) \<and> has_columns dfb (listify (job_values_b j)) \<and>
      (case (job_meta_a j, job_meta_b j) of
         (None, None) \<Rightarrow> True
       | (Some ma, Some mb) \<Rightarrow>
           job_static_meta j \<or>
           (has_columns dfa (listify ma) \<and> has_columns dfb (listify mb) \<and>
            (listify (job_values_a j) = [] \<longleftrightarrow> listify ma = []) \<and>
            (listify (job_values_b j) = [] \<longleftrightarrow> listify mb = []))
       | _ \<Rightarrow> False))"

text \<open>
  A table A with two records and three metadata columns, a table B with one record, and a
  pair index that matches the second record of A.
\<close>

definition broadcast_a :: frame where
  "broadcast_a =
     \<lparr>fr_index = [VStr ''a1'', VStr ''a2''],
      fr_columns = [(VStr ''name'', [VStr ''Jon'', VStr ''Ann'']),
                    (VStr ''m1'', [VInt 1, VInt 2]),
                    (VStr ''m2'', [VInt 3, VInt 4]),
                    (VStr ''m3'', [VInt 5, VInt 6])]\<rparr>"

definition broadcast_b :: frame where
  "broadcast_b =
     \<lparr>fr_index = [VStr ''b1''],
      fr_columns = [(VStr ''name'', [VStr ''John'']), (VStr ''m'', [VInt 7])]\<rparr>"

definition broadcast_vectors :: pair_vectors where
  "broadcast_vectors =
     \<lparr>pv_index = \<lparr>mi_names = (None, None), mi_pairs = [(VStr ''a2'', VStr ''b1'')]\<rparr>,
      pv_columns = []\<rparr>"

text \<open>The engine state during a run of \<^verbatim>\<open>fuse\<close> on the two examples.\<close>

definition scenario_state :: fuse_core where
  "scenario_state =
     run_state (new_engine (FuseLinks False False)) scenario_vectors
       (Some scenario_a) (Some scenario_b) None ''_a'' ''_b''"

definition broadcast_state :: fuse_core where
  "broadcast_state =
     run_state (new_engine (FuseLinks False False)) broadcast_vectors
       (Some broadcast_a) (Some broadcast_b) None ''_a'' ''_b''"


text \<open>A pair index without pairs.\<close>

definition empty_vectors :: pair_vectors where
  "empty_vectors = \<lparr>pv_index = \<lparr>mi_names = (None, None), mi_pairs = []\<rparr>, pv_columns = []\<rparr>"

text \<open>
  Pair indexes of the scenario with other level names: the same name on both levels, a
  name on the B level only, and two names without any pair.
\<close>

definition same_named_vectors :: pair_vectors where
  "same_named_vectors =
     \<lparr>pv_index = \<lparr>mi_names = (Some (VStr ''id''), Some (VStr ''id'')),
                  mi_pairs = [(VStr ''id1'', VStr ''id2'')]\<rparr>,
      pv_columns = []\<rparr>"


definition named_empty_vectors :: pair_vectors where
  "named_empty_vectors =
     \<lparr>pv_index = \<lparr>mi_names = (Some (VStr ''id_a''), Some (VStr ''id_b'')), mi_pairs = []\<rparr>,
      pv_columns = []\<rparr>"


text \<open>
  A job that passes validation, names existing columns, at least one of them a value
  column, and generalizes nothing.
\<close>

definition direct_job :: "frame \<Rightarrow> frame \<Rightarrow> job \<Rightarrow> bool" where
  "direct_job dfa dfb j =
     (\<not> not_callable (job_transform_vals j) \<and> \<not> not_callable (job_transform_meta j) \<and>
      has_columns dfa (listify (job_values_a j)) \<and> has_columns dfb (listify (job_values_b j)) \<and>
      (listify (job_values_a j) \<noteq> [] \<or> listify (job_values_b j) \<noteq> []) \<and>
      fetched_directly dfa dfb (listify (job_values_a j)) (listify (job_values_b j))
        (job_meta_a j) (job_meta_b j) (job_static_meta j))"

text \<open>The aligned pair record of a job for one pair, from the fields of the job.\<close>

definition job_record :: "frame \<Rightarrow> frame \<Rightarrow> job \<Rightarrow> val \<times> val \<Rightarrow> val" where
  "job_record dfa dfb j =
     direct_record dfa dfb (listify (job_values_a j)) (listify (job_values_b j))
       (job_meta_a j) (job_meta_b j) (job_transform_vals j) (job_transform_meta j)
       (job_static_meta j)"

section \<open>The engine state of a run\<close>

lemma fusion_init_raises:
  "to_frame (pv_index vecs) = Inl e \<Longrightarrow>
   fusion_init self vecs dfa dfb preds sa sb = (Some e, self\<lparr>vectors := Some vecs\<rparr>)"
  by (simp add: fusion_init_def)

lemma fusion_init_returns:
  "to_frame (pv_index vecs) = Inr f \<Longrightarrow>
   fst (fusion_init self vecs dfa dfb preds sa sb) = None"
  by (simp add: fusion_init_def)

lemma run_state_fields:
  assumes "to_frame (pv_index vecs) = Inr f"
  shows "index (run_state self vecs dfa dfb preds sa sb) = Some f"
    and "df_a (run_state self vecs dfa dfb preds sa sb) = dfa"
    and "df_b (run_state self vecs dfa dfb preds sa sb) = dfb"
  using assms by (simp_all add: run_state_def fusion_setup_def fusion_init_def)

lemma run_state_keeps:
  "resolution_queue (run_state self vecs dfa dfb preds sa sb) = resolution_queue self"
  "cls (run_state self vecs dfa dfb preds sa sb) = cls self"
  by (simp_all add: run_state_def fusion_setup_def fusion_init_def split: sum.splits)

lemma fuse_result:
  "fst (fuse self vecs dfa dfb preds sa sb g) =
   (case fused_columns self vecs dfa dfb preds sa sb g of
      Inl e \<Rightarrow> Inl e
    | Inr cols \<Rightarrow> pd_concat cols)"
proof (cases "fusion_init self vecs dfa dfb preds sa sb")
  case (Pair r s)
  show ?thesis
  proof (cases r)
    case None
    have q: "resolution_queue (fusion_setup s) = resolution_queue self"
      using run_state_keeps(1) [of self vecs dfa dfb preds sa sb] Pair
      by (simp add: run_state_def)
    from Pair None show ?thesis
      by (simp add: fuse_def fused_columns_def run_state_def Let_def q
               split: prod.splits sum.splits)
  next
    case (Some e)
    with Pair show ?thesis by (simp add: fuse_def fused_columns_def)
  qed
qed

lemma fused_columns_running:
  "to_frame (pv_index vecs) = Inr f \<Longrightarrow>
   fused_columns self vecs dfa dfb preds sa sb g =
   fst (resolve_queue (run_state self vecs dfa dfb preds sa sb) (resolution_queue self) g)"
  by (simp add: fused_columns_def fusion_init_returns)

lemma fused_columns_started:
  "fused_columns self vecs dfa dfb preds sa sb g = Inr cols \<Longrightarrow>
   fst (resolve_queue (run_state self vecs dfa dfb preds sa sb) (resolution_queue self) g) =
   Inr cols"
  by (simp add: fused_columns_def split: option.splits)

lemma to_frame_unnamed:
  "mi_names mi = (None, None) \<Longrightarrow>
   to_frame mi =
   Inr \<lparr>fr_index = map (\<lambda>p. VTuple [fst p, snd p]) (mi_pairs mi),
        fr_columns = [(VInt 0, map fst (mi_pairs mi)), (VInt 1, map snd (mi_pairs mi))]\<rparr>"
  by (simp add: to_frame_def level_label_def)

section \<open>An engine without jobs\<close>

text \<open>
  C10, as stated, fails for a pair index with the same name on both levels: the error of
  \<^verbatim>\<open>fuse\<close> on an empty queue is then the one \<^verbatim>\<open>to_frame\<close> raises in \<^verbatim>\<open>_fusion_init\<close>, before
  the loop, and \<^verbatim>\<open>pd.concat\<close> is never reached.
\<close>

theorem fuse_empty_queue_counterexample:
  "resolution_queue (new_engine (FuseLinks False False)) = [] \<and>
   fst (fuse (new_engine (FuseLinks False False)) same_named_vectors
          (Some scenario_a) (Some scenario_b) None ''_a'' ''_b'' 0) =
     Inl (ValueError ''Cannot create duplicate column labels if allow_duplicates is False'') \<and>
   fst (fuse (new_engine (FuseLinks False False)) same_named_vectors
          (Some scenario_a) (Some scenario_b) None ''_a'' ''_b'' 0) \<noteq>
     Inl (ValueError ''No objects to concatenate'')"
  by (simp add: fuse_def fusion_init_def to_frame_def level_label_def same_named_vectors_def
        new_engine_def)

text \<open>
  C10, amended. Whatever the source tables and the pair index are, \<^verbatim>\<open>fuse\<close> on an engine
  whose resolution queue is empty raises an error and returns no table: when the two
  levels of the pair index have different labels, the list of columns is empty and the
  final \<^verbatim>\<open>pd.concat\<close> raises its ValueError; when they have the same label, the error is
  the one of \<^verbatim>\<open>to_frame\<close>.
\<close>

theorem fuse_empty_queue_raises:
  "resolution_queue self = [] \<Longrightarrow>
   fst (fuse self vecs dfa dfb preds sa sb g) =
   (case to_frame (pv_index vecs) of
      Inl e \<Rightarrow> Inl e
    | Inr f \<Rightarrow> Inl (ValueError ''No objects to concatenate''))"
  by (simp add: fuse_result fused_columns_def fusion_init_def pd_concat_def split: sum.splits)

theorem fuse_empty_queue_raises_witness:
  "resolution_queue (new_engine (FuseLinks False False)) = [] \<and>
   fst (fuse (new_engine (FuseLinks False False)) scenario_vectors
          (Some scenario_a) (Some scenario_b) None ''_a'' ''_b'' 0)
     = Inl (ValueError ''No objects to concatenate'')"
proof -
  have q: "resolution_queue (new_engine (FuseLinks False False)) = []"
    by (simp add: new_engine_def)
  have f: "mi_names (pv_index scenario_vectors) = (None, None)"
    by (simp add: scenario_vectors_def)
  from fuse_empty_queue_raises [OF q, of scenario_vectors "Some scenario_a" "Some scenario_b"
         None "''_a''" "''_b''" 0] q to_frame_unnamed [OF f]
  show ?thesis by simp
qed

section \<open>Validation fails fast\<close>

text \<open>Nothing after the checks raises one of the five validation errors.\<close>

lemma series_loc_error: "series_loc s ls = Inl e \<Longrightarrow> \<not> is_validation_error e"
  by (induction ls arbitrary: e) (auto simp: is_validation_error_def split: list.splits sum.splits)

lemma frame_getitem_error: "frame_getitem df k = Inl e \<Longrightarrow> \<not> is_validation_error e"
  by (auto simp: frame_getitem_def is_validation_error_def split: option.splits)

lemma index_getitem_error: "index_getitem ix k = Inl e \<Longrightarrow> \<not> is_validation_error e"
  by (auto simp: index_getitem_def is_validation_error_def dest: frame_getitem_error split: option.splits)

lemma collect_direct_error:
  "collect_direct df ix k names = Inl e \<Longrightarrow> \<not> is_validation_error e"
  by (induction names arbitrary: e)
     (auto split: sum.splits dest: series_loc_error frame_getitem_error index_getitem_error)

lemma collect_generalized_error:
  "collect_generalized df names n = Inl e \<Longrightarrow> \<not> is_validation_error e"
  by (induction n arbitrary: e)
     (auto split: sum.splits list.splits dest: frame_getitem_error simp: is_validation_error_def)

lemma collect_static_error:
  "collect_static ix k c n = Inl e \<Longrightarrow> \<not> is_validation_error e"
  by (induction n arbitrary: e)
     (auto split: sum.splits option.splits if_splits dest: index_getitem_error
           simp: is_validation_error_def index_len_def pd_Series_index_def)

lemma apply_transform_error:
  "apply_transform t data = Inl e \<Longrightarrow> \<not> is_validation_error e"
  by (auto simp: apply_transform_def is_validation_error_def split: option.splits transform.splits if_splits)

lemma make_value_data_error:
  "make_value_data ix dfa dfb va vb ma mb ga gb t = Inl e \<Longrightarrow> \<not> is_validation_error e"
  unfolding make_value_data_def
  by (auto split: sum.splits if_splits
           dest: collect_direct_error collect_generalized_error apply_transform_error)

lemma make_metadata_error:
  "make_metadata ix dfa dfb va vb ma mb st ga gb t = Inl e \<Longrightarrow> \<not> is_validation_error e"
  unfolding make_metadata_def
  by (auto split: sum.splits if_splits
           dest: collect_direct_error collect_generalized_error collect_static_error apply_transform_error)

lemma validation_fails_raises:
  assumes "validation_fails self meta_a meta_b tv tm"
  shows "\<exists>e. FuseLinks_make_resolution_series self va vb meta_a meta_b tv tm st = Inl e \<and> is_validation_error e"
  using assms
  unfolding validation_fails_def FuseLinks_make_resolution_series_def is_validation_error_def
  by (cases tv; cases tm; cases meta_a; cases meta_b)
     (auto split: option.splits simp: Let_def)

lemma validation_passes_no_error:
  assumes "\<not> validation_fails self meta_a meta_b tv tm"
      and "FuseLinks_make_resolution_series self va vb meta_a meta_b tv tm st = Inl e"
  shows "\<not> is_validation_error e"
  using assms
  unfolding validation_fails_def FuseLinks_make_resolution_series_def
  by (cases tv; cases tm; cases meta_a; cases meta_b)
     (auto split: option.splits sum.splits if_splits simp: Let_def
           dest: make_value_data_error make_metadata_error)

text \<open>
  C5. Building the resolution series returns one of the validation errors, instead of a
  series, exactly when a source table is missing, a supplied \<open>transform_vals\<close> or
  \<open>transform_meta\<close> is not callable, or metadata is given for exactly one of the two
  sides. The checks come before any lookup, so the error is the result whatever the
  columns are; and when none of the conditions holds, no validation error is raised.
\<close>

theorem validation_fail_fast:
  "(\<exists>e. FuseLinks_make_resolution_series self va vb meta_a meta_b tv tm st = Inl e \<and>
        is_validation_error e)
   \<longleftrightarrow> validation_fails self meta_a meta_b tv tm"
  using validation_fails_raises validation_passes_no_error by blast

theorem validation_fail_fast_witness:
  "validation_fails (new_engine (FuseLinks False False))
     (Some (VStr ''m'')) None None (Some (NotCallable (VInt 3))) \<and>
   (\<exists>e. FuseLinks_make_resolution_series (new_engine (FuseLinks False False))
          (VStr ''name'') (VStr ''name'') (Some (VStr ''m'')) None None
          (Some (NotCallable (VInt 3))) False = Inl e \<and> is_validation_error e) \<and>
   \<not> validation_fails scenario_state None None None None \<and>
   \<not> (\<exists>e. FuseLinks_make_resolution_series scenario_state
            (VStr ''name'') (VStr ''name'') None None None None False = Inl e \<and>
          is_validation_error e)"
proof -
  have bad: "validation_fails (new_engine (FuseLinks False False))
               (Some (VStr ''m'')) None None (Some (NotCallable (VInt 3)))"
    by (simp add: validation_fails_def new_engine_def)
  have good: "\<not> validation_fails scenario_state None None None None"
    by (simp add: validation_fails_def scenario_state_def run_state_def fusion_setup_def
          fusion_init_def to_frame_def level_label_def scenario_vectors_def new_engine_def)
  from bad good
    validation_fail_fast [of "new_engine (FuseLinks False False)" "VStr ''name''"
      "VStr ''name''" "Some (VStr ''m'')" None None "Some (NotCallable (VInt 3))" False]
    validation_fail_fast [of scenario_state "VStr ''name''" "VStr ''name''"
      None None None None False]
  show ?thesis by blast
qed

section \<open>Determinism\<close>

lemma series_apply_args_pure:
  "pure_strategy f \<Longrightarrow>
   series_apply_args f args s g = (map (\<lambda>row. (fst row, fst (f (snd row) args 0))) s, g)"
proof (induction s arbitrary: g)
  case Nil
  then show ?case by simp
next
  case (Cons row rows)
  from Cons.prems have "f (snd row) args g = (fst (f (snd row) args 0), g)"
    unfolding pure_strategy_def by blast
  with Cons show ?case by simp
qed

lemma resolve_queue_pure:
  "\<forall>j \<in> set q. pure_strategy (job_fun j) \<Longrightarrow>
   resolve_queue self q g = (fst (resolve_queue self q 0), g)"
proof (induction q arbitrary: g)
  case Nil
  then show ?case by simp
next
  case (Cons j jobs)
  then have p: "pure_strategy (job_fun j)" and rest: "\<forall>j \<in> set jobs. pure_strategy (job_fun j)"
    by simp_all
  define r where "r = fst (resolve_queue self jobs 0)"
  have ih: "\<And>g. resolve_queue self jobs g = (r, g)"
    unfolding r_def by (rule Cons.IH [OF rest])
  let ?m = "job_series self j"
  show ?case
  proof (cases ?m)
    case (Inl e)
    then show ?thesis by simp
  next
    case (Inr d)
    show ?thesis
    proof (cases d)
      case None
      with Inr show ?thesis by simp
    next
      case (Some data)
      obtain col where col: "\<And>g. resolve self (job_fun j) data (job_params j) g = (col, g)"
        using series_apply_args_pure [OF p] by (simp add: resolve_def)
      show ?thesis
        by (cases r) (simp_all add: Inr Some col ih)
    qed
  qed
qed

lemma fused_columns_depend_on_queue:
  assumes "cls s1 = cls s2" and "resolution_queue s1 = resolution_queue s2"
  shows "fused_columns s1 vecs dfa dfb preds sa sb g =
         fused_columns s2 vecs dfa dfb preds sa sb g"
proof (cases "to_frame (pv_index vecs)")
  case (Inl e)
  then show ?thesis by (simp add: fused_columns_def fusion_init_def)
next
  case (Inr f)
  have "run_state s1 vecs dfa dfb preds sa sb = run_state s2 vecs dfa dfb preds sa sb"
    using assms by (simp add: run_state_def fusion_setup_def fusion_init_def Inr)
  with assms(2) show ?thesis by (simp add: fused_columns_running [OF Inr])
qed

lemma fuse_engine_after:
  assumes "fuse self vecs dfa dfb preds sa sb g = (out, self1, g1)"
  shows "cls self1 = cls self" and "resolution_queue self1 = resolution_queue self"
proof -
  have "self1 = snd (fusion_init self vecs dfa dfb preds sa sb) \<or>
        self1 = fusion_setup (snd (fusion_init self vecs dfa dfb preds sa sb))"
    using assms by (auto simp: fuse_def Let_def split: prod.splits sum.splits option.splits)
  then show "cls self1 = cls self" and "resolution_queue self1 = resolution_queue self"
    by (auto simp: fusion_setup_def fusion_init_def split: sum.splits)
qed

lemma fuse_depends_on_queue:
  assumes "cls s1 = cls s2" and "resolution_queue s1 = resolution_queue s2"
  shows "fst (fuse s1 vecs dfa dfb preds sa sb g) = fst (fuse s2 vecs dfa dfb preds sa sb g)"
  by (simp add: fuse_result fused_columns_depend_on_queue [OF assms])

lemma fuse_pure_rng:
  assumes "\<forall>j \<in> set (resolution_queue self). pure_strategy (job_fun j)"
  shows "fst (fuse self vecs dfa dfb preds sa sb g) = fst (fuse self vecs dfa dfb preds sa sb g')"
proof -
  let ?s = "run_state self vecs dfa dfb preds sa sb"
  have "fst (resolve_queue ?s (resolution_queue self) g) =
        fst (resolve_queue ?s (resolution_queue self) g')"
    using resolve_queue_pure [OF assms, of ?s g] resolve_queue_pure [OF assms, of ?s g']
    by simp
  then have "fused_columns self vecs dfa dfb preds sa sb g =
             fused_columns self vecs dfa dfb preds sa sb g'"
    by (simp add: fused_columns_def split: option.splits)
  then show ?thesis by (simp add: fuse_result)
qed

text \<open>
  C7. Two calls of \<^verbatim>\<open>fuse\<close> on the same engine, one after the other, with the same
  vectors, tables and arguments and an unchanged queue return the same result: the second
  call starts from the engine state the first one left, and from generator state \<open>g'\<close>.
  The results agree when the generator is reset to the same state (the same seed), and
  for any generator state when every queued strategy is pure.
\<close>

theorem fuse_deterministic:
  assumes first: "fuse self vecs dfa dfb preds sa sb g = (out1, self1, g1)"
      and second: "fuse self1 vecs dfa dfb preds sa sb g' = (out2, self2, g2)"
      and seed: "g' = g \<or> (\<forall>j \<in> set (resolution_queue self). pure_strategy (job_fun j))"
  shows "out2 = out1"
proof -
  note same = fuse_engine_after [OF first]
  have again: "fst (fuse self1 vecs dfa dfb preds sa sb g') =
               fst (fuse self vecs dfa dfb preds sa sb g')"
    using fuse_depends_on_queue [OF same] .
  have o1: "out1 = fst (fuse self vecs dfa dfb preds sa sb g)"
    using first by simp
  have o2: "out2 = fst (fuse self vecs dfa dfb preds sa sb g')"
    using second again by simp
  from seed show ?thesis
  proof
    assume "g' = g"
    with o1 o2 show ?thesis by simp
  next
    assume "\<forall>j \<in> set (resolution_queue self). pure_strategy (job_fun j)"
    from fuse_pure_rng [OF this, of vecs dfa dfb preds sa sb g' g] o1 o2
    show ?thesis by simp
  qed
qed

theorem fuse_deterministic_witness:
  "pure_strategy first_value \<and>
   fst (fuse (fst (snd (fuse (no_gossiping first_value (new_engine (FuseLinks False False))
                               (VStr ''name'') (VStr ''name''))
                          scenario_vectors (Some scenario_a) (Some scenario_b) None
                          ''_a'' ''_b'' 0)))
          scenario_vectors (Some scenario_a) (Some scenario_b) None ''_a'' ''_b'' 7) =
   fst (fuse (no_gossiping first_value (new_engine (FuseLinks False False))
                (VStr ''name'') (VStr ''name''))
          scenario_vectors (Some scenario_a) (Some scenario_b) None ''_a'' ''_b'' 0)"
proof -
  let ?e = "no_gossiping first_value (new_engine (FuseLinks False False))
              (VStr ''name'') (VStr ''name'')"
  let ?r1 = "fuse ?e scenario_vectors (Some scenario_a) (Some scenario_b) None ''_a'' ''_b'' 0"
  let ?r2 = "fuse (fst (snd ?r1)) scenario_vectors (Some scenario_a) (Some scenario_b) None
               ''_a'' ''_b'' 7"
  have "first_value x args g = (fst (first_value x args 0), g)" for x args g
    by (induction x args g rule: first_value.induct) simp_all
  then have p: "pure_strategy first_value"
    unfolding pure_strategy_def by blast
  have all: "\<forall>j \<in> set (resolution_queue ?e). pure_strategy (job_fun j)"
    by (simp add: no_gossiping_def queue_resolve_def new_engine_def p)
  have r1: "?r1 = (fst ?r1, fst (snd ?r1), snd (snd ?r1))" by simp
  have r2: "?r2 = (fst ?r2, fst (snd ?r2), snd (snd ?r2))" by simp
  from fuse_deterministic [OF r1 r2 disjI2 [OF all]] p show ?thesis by blast
qed

section \<open>The columns of the fused table\<close>

lemma length_range_index [simp]: "length (range_index n) = n"
  by (simp add: range_index_def)

lemma labels_pd_Series [simp]: "map fst (pd_Series data) = range_index (length data)"
  by (simp add: pd_Series_def)

lemma values_pd_Series [simp]: "map snd (pd_Series data) = data"
  by (simp add: pd_Series_def)

lemma length_pd_Series [simp]: "length (pd_Series data) = length data"
  by (simp add: pd_Series_def)

lemma labels_series_apply_args:
  "map fst (fst (series_apply_args f args s g)) = map fst s"
proof (induction s arbitrary: g)
  case Nil
  then show ?case by simp
next
  case (Cons row rows)
  obtain y g1 where y: "f (snd row) args g = (y, g1)" by (cases "f (snd row) args g")
  obtain ys g2 where ys: "series_apply_args f args rows g1 = (ys, g2)"
    by (cases "series_apply_args f args rows g1")
  from Cons.IH [of g1] ys show ?case by (simp add: y)
qed

lemma length_series_apply_args:
  "length (fst (series_apply_args f args s g)) = length s"
  using labels_series_apply_args [of f args s g, THEN arg_cong, of length] by simp

lemma nth_series_apply_args:
  "i < length s \<Longrightarrow>
   \<exists>gi. snd (fst (series_apply_args f args s g) ! i) = fst (f (snd (s ! i)) args gi)"
proof (induction s arbitrary: g i)
  case Nil
  then show ?case by simp
next
  case (Cons row rows)
  obtain y g1 where y: "f (snd row) args g = (y, g1)" by (cases "f (snd row) args g")
  obtain ys g2 where ys: "series_apply_args f args rows g1 = (ys, g2)"
    by (cases "series_apply_args f args rows g1")
  show ?case
  proof (cases i)
    case 0
    have "snd (fst (series_apply_args f args (row # rows) g) ! 0) = fst (f (snd row) args g)"
      by (simp add: y ys)
    with 0 show ?thesis by auto
  next
    case (Suc k)
    with Cons.prems have "k < length rows" by simp
    from Cons.IH [OF this, of g1] ys Suc y show ?thesis by simp
  qed
qed

lemma labels_FuseLinks_series:
  "FuseLinks_make_resolution_series self va vb ma mb tv tm st = Inr s \<Longrightarrow>
   map fst s = range_index (length s)"
  unfolding FuseLinks_make_resolution_series_def
  by (auto simp: Let_def split: option.splits if_splits sum.splits)

lemma labels_job_series:
  "job_series self j = Inr (Some s) \<Longrightarrow> map fst s = range_index (length s)"
  unfolding job_series_def make_resolution_series_def
  by (auto split: fuse_class.splits sum.splits dest: labels_FuseLinks_series simp: range_index_def)

text \<open>The columns collected by the loop, job by job.\<close>

lemma resolve_queue_columns:
  "resolve_queue self q g = (Inr cols, g') \<Longrightarrow>
   length cols = length q \<and>
   (\<forall>k < length q. \<exists>data gk.
      job_series self (q ! k) = Inr (Some data) \<and>
      cols ! k = fst (resolve self (job_fun (q ! k)) data (job_params (q ! k)) gk))"
proof (induction q arbitrary: g cols)
  case Nil
  then show ?case by simp
next
  case (Cons j jobs)
  let ?m = "job_series self j"
  from Cons.prems obtain data where m: "?m = Inr (Some data)"
    by (auto split: sum.splits option.splits)
  obtain col g1 where r: "resolve self (job_fun j) data (job_params j) g = (col, g1)"
    by (cases "resolve self (job_fun j) data (job_params j) g")
  from Cons.prems m r obtain fused where
    f: "resolve_queue self jobs g1 = (Inr fused, g')" and c: "cols = col # fused"
    by (auto split: sum.splits prod.splits)
  from Cons.IH [OF f] have len: "length fused = length jobs"
    and nth: "\<forall>k < length jobs. \<exists>data gk.
      job_series self (jobs ! k) = Inr (Some data) \<and>
      fused ! k = fst (resolve self (job_fun (jobs ! k)) data (job_params (jobs ! k)) gk)"
    by simp_all
  show ?case
  proof (intro conjI allI impI)
    show "length cols = length (j # jobs)" using len c by simp
  next
    fix k assume k: "k < length (j # jobs)"
    show "\<exists>data gk.
      job_series self ((j # jobs) ! k) = Inr (Some data) \<and>
      cols ! k = fst (resolve self (job_fun ((j # jobs) ! k)) data (job_params ((j # jobs) ! k)) gk)"
    proof (cases k)
      case 0
      have "cols ! 0 = fst (resolve self (job_fun j) data (job_params j) g)"
        using c r by simp
      with m 0 show ?thesis by auto
    next
      case (Suc n)
      with k have "n < length jobs" by simp
      with nth Suc c show ?thesis by simp
    qed
  qed
qed

lemma labels_resolve:
  "map fst (fst (resolve self f data params g)) = map fst data"
  by (simp add: resolve_def labels_series_apply_args)

lemma resolve_queue_labels:
  assumes "resolve_queue self q g = (Inr cols, g')"
  shows "\<forall>c \<in> set cols. map fst c = range_index (length c)"
proof
  fix c assume "c \<in> set cols"
  then obtain k where k: "k < length cols" and ck: "c = cols ! k"
    by (auto simp: in_set_conv_nth)
  from resolve_queue_columns [OF assms] k obtain data gk where
    d: "job_series self (q ! k) = Inr (Some data)"
    and c: "cols ! k = fst (resolve self (job_fun (q ! k)) data (job_params (q ! k)) gk)"
    by auto
  have "map fst c = map fst data" using c ck by (simp add: labels_resolve)
  moreover have "length c = length data"
    using c ck labels_resolve [of self "job_fun (q ! k)" data "job_params (q ! k)" gk, THEN arg_cong, of length] by simp
  ultimately show "map fst c = range_index (length c)"
    using labels_job_series [OF d] by simp
qed

text \<open>Union of default indexes.\<close>

lemma filter_range_index:
  "filter (\<lambda>l. l \<notin> set (range_index m)) (range_index n) = map (\<lambda>i. VInt (int i)) [m..<n]"
proof -
  have "filter (\<lambda>l. l \<notin> set (range_index m)) (range_index n)
        = map (\<lambda>i. VInt (int i)) (filter (\<lambda>i. i \<notin> {0..<m}) [0..<n])"
    by (auto simp: range_index_def filter_map o_def intro!: filter_cong arg_cong [where f = "map _"])
  also have "filter (\<lambda>i. i \<notin> {0..<m}) [0..<n] = [m..<n]"
    by (induction n) auto
  finally show ?thesis .
qed

lemma index_union_range: "index_union (range_index m) (range_index n) = range_index (max m n)"
proof -
  have u: "index_union (range_index m) (range_index n) =
           range_index m @ map (\<lambda>i. VInt (int i)) [m..<n]"
    by (simp only: index_union_def filter_range_index)
  show ?thesis
  proof (cases "m \<le> n")
    case True
    then have "[0..<n] = [0..<m] @ [m..<n]"
      by (metis le_iff_add upt_add_eq_append zero_le)
    then have "range_index n = range_index m @ map (\<lambda>i. VInt (int i)) [m..<n]"
      by (simp add: range_index_def flip: map_append)
    with True u show ?thesis by (simp add: max_def)
  next
    case False
    with u show ?thesis by (simp add: max_def)
  qed
qed

lemma foldl_index_union_range:
  "\<forall>c \<in> set cols. map fst c = range_index (length c) \<Longrightarrow>
   foldl index_union (range_index m) (map (map fst) cols) =
   range_index (fold max (map length cols) m)"
  by (induction cols arbitrary: m) (simp_all add: index_union_range max.commute)

lemma distinct_range_index: "distinct (range_index n)"
  by (simp add: range_index_def distinct_map inj_on_def)

lemma map_series_get:
  "distinct (map fst c) \<Longrightarrow> map (series_get c) (map fst c) = map snd c"
proof (induction c)
  case Nil
  then show ?case by simp
next
  case (Cons row c)
  then have n: "fst row \<notin> fst ` set c" and d: "distinct (map fst c)" by simp_all
  have "series_get (row # c) l = series_get c l" if "l \<in> fst ` set c" for l
  proof -
    from that n have "l \<noteq> fst row" by blast
    then show ?thesis by (cases row) (simp add: series_get_def)
  qed
  then have "map (series_get (row # c)) (map fst c) = map (series_get c) (map fst c)"
    by simp
  with Cons.IH [OF d] show ?case by (simp add: series_get_def)
qed

lemma fold_max_same:
  "\<forall>c \<in> set cols. length c = n \<Longrightarrow> fold max (map length cols) m = (if cols = [] then m else max m n)"
  by (induction cols arbitrary: m) (auto simp: max.assoc)

lemma enumerate_columns:
  "map f (enumerate 0 cols) = map (\<lambda>k. f (k, cols ! k)) [0..<length cols]"
  by (auto simp: enumerate_eq_zip intro!: nth_equalityI)

text \<open>Concatenating columns that all carry the labels \<open>0, ..., n - 1\<close>.\<close>

lemma pd_concat_aligned:
  assumes ne: "cols \<noteq> []" and lab: "\<forall>c \<in> set cols. map fst c = range_index n"
  shows "pd_concat cols =
         Inr \<lparr>fr_index = range_index n,
              fr_columns = map (\<lambda>k. (VInt (int k), map snd (cols ! k))) [0..<length cols]\<rparr>"
proof -
  have len: "\<forall>c \<in> set cols. length c = n"
  proof
    fix c assume "c \<in> set cols"
    with lab have "map fst c = range_index n" by blast
    then have "length (map fst c) = length (range_index n)" by simp
    then show "length c = n" by (simp add: range_index_def)
  qed
  with lab have lab': "\<forall>c \<in> set cols. map fst c = range_index (length c)" by simp
  have "range_index 0 = []" by (simp add: range_index_def)
  with foldl_index_union_range [OF lab', of 0] fold_max_same [OF len, of 0] ne
  have ix: "foldl index_union [] (map (map fst) cols) = range_index n" by simp
  have cells: "map (series_get (cols ! k)) (range_index n) = map snd (cols ! k)"
    if "k < length cols" for k
  proof -
    from that have "cols ! k \<in> set cols" by simp
    with lab have l: "map fst (cols ! k) = range_index n" by blast
    with distinct_range_index [of n] have "distinct (map fst (cols ! k))" by simp
    from map_series_get [OF this] l show ?thesis by simp
  qed
  have "map (\<lambda>js. (VInt (int (fst js)), map (series_get (snd js)) (range_index n)))
          (enumerate 0 cols) =
        map (\<lambda>k. (VInt (int k), map snd (cols ! k))) [0..<length cols]"
    unfolding enumerate_columns using cells by simp
  with ne ix show ?thesis by (simp add: pd_concat_def Let_def)
qed

lemma scenario_fuse:
  "fst (fuse scenario_engine scenario_vectors (Some scenario_a) (Some scenario_b) None ''_a'' ''_b'' 0)
   = Inr \<lparr>fr_index = [VInt 0], fr_columns = [(VInt 0, [VStr ''Jon''])]\<rparr>"
  by (simp add: fuse_def scenario_engine_def no_gossiping_def queue_resolve_def new_engine_def
        run_state_def fusion_setup_def fusion_init_def job_series_def make_resolution_series_def
        FuseLinks_make_resolution_series_def make_value_data_def apply_transform_def
        scenario_a_def scenario_b_def scenario_vectors_def to_frame_def level_label_def
        frame_getitem_def index_getitem_def pd_Series_def range_index_def resolve_def
        pd_concat_def index_union_def series_get_def Let_def)

lemma scenario_fused_columns:
  "fused_columns scenario_engine scenario_vectors (Some scenario_a) (Some scenario_b) None ''_a'' ''_b'' 0
   = Inr [[(VInt 0, VStr ''Jon'')]]"
  by (simp add: fused_columns_def scenario_engine_def no_gossiping_def queue_resolve_def new_engine_def
        run_state_def fusion_setup_def fusion_init_def job_series_def make_resolution_series_def
        FuseLinks_make_resolution_series_def make_value_data_def apply_transform_def
        scenario_a_def scenario_b_def scenario_vectors_def to_frame_def level_label_def
        frame_getitem_def index_getitem_def pd_Series_def range_index_def resolve_def Let_def)

text \<open>
  C2, as stated, fails. In the scenario of the specification the table returned by
  \<^verbatim>\<open>fuse\<close> is row-indexed by the position \<open>0\<close>, not by the pair \<open>(id1, id2)\<close>, and so is
  the job's output column.
\<close>

theorem fuse_pair_index_counterexample:
  "fst (fuse scenario_engine scenario_vectors (Some scenario_a) (Some scenario_b) None
          ''_a'' ''_b'' 0) =
     Inr \<lparr>fr_index = [VInt 0], fr_columns = [(VInt 0, [VStr ''Jon''])]\<rparr> \<and>
   fr_index \<lparr>fr_index = [VInt 0], fr_columns = [(VInt 0, [VStr ''Jon''])]\<rparr>
     \<noteq> pair_labels scenario_vectors \<and>
   fused_columns scenario_engine scenario_vectors (Some scenario_a) (Some scenario_b) None
     ''_a'' ''_b'' 0 = Inr [[(VInt 0, VStr ''Jon'')]] \<and>
   map fst [(VInt 0, VStr ''Jon'')] \<noteq> pair_labels scenario_vectors"
  using scenario_fuse scenario_fused_columns
  by (simp add: pair_labels_def scenario_vectors_def)

section \<open>Applying the strategy\<close>

lemma nth_resolve:
  assumes "i < length data"
  shows "\<exists>gi. fst (resolve self f data params g) ! i =
              (fst (data ! i), fst (f (snd (data ! i)) (star_args params) gi))"
proof -
  let ?col = "fst (resolve self f data params g)"
  have lab: "map fst ?col = map fst data" by (rule labels_resolve)
  then have len: "length ?col = length data" by (rule map_eq_imp_length_eq)
  from lab assms len have l: "fst (?col ! i) = fst (data ! i)"
    by (metis nth_map)
  from nth_series_apply_args [OF assms, of f "star_args params" g]
  obtain gi where "snd (?col ! i) = fst (f (snd (data ! i)) (star_args params) gi)"
    by (auto simp: resolve_def)
  with l have "?col ! i = (fst (data ! i), fst (f (snd (data ! i)) (star_args params) gi))"
    by (simp add: prod_eq_iff)
  then show ?thesis by blast
qed

text \<open>
  C6, as stated, fails in one point: a job queued without explicit parameters does not
  hold the empty tuple; \<^verbatim>\<open>queue_resolve\<close> has \<^verbatim>\<open>params=None\<close>.
\<close>

theorem default_params_counterexample:
  "job_params (last (resolution_queue scenario_engine)) \<noteq> Some []"
  by (simp add: scenario_engine_def no_gossiping_def queue_resolve_def)

text \<open>
  C6, amended. For every queued job, the job's output column holds, row by row and under
  the row's label, the result of the job's strategy function on the aligned pair record of
  that row, called with the job's \<open>params\<close> as extra positional arguments, the same on
  every call. A job queued without explicit parameters holds \<open>None\<close>, which is applied as
  no extra argument, so that the strategy receives the aligned pair record alone.
\<close>

theorem fuse_applies_strategy:
  assumes "fused_columns self vecs dfa dfb preds sa sb g = Inr cols"
      and "k < length (resolution_queue self)"
  shows "job_params (last (resolution_queue (no_gossiping f s c1 c2))) = None \<and>
         job_params (last (resolution_queue (roll_the_dice f s c1 c2))) = None \<and>
         job_params (last (resolution_queue (cry_with_the_wolves f s c1 c2))) = None \<and>
         star_args None = [] \<and>
         (\<exists>data.
            job_series (run_state self vecs dfa dfb preds sa sb)
              (resolution_queue self ! k) = Inr (Some data) \<and>
            length (cols ! k) = length data \<and>
            (\<forall>i < length data. \<exists>gi.
               cols ! k ! i =
               (fst (data ! i),
                fst (job_fun (resolution_queue self ! k) (snd (data ! i))
                       (star_args (job_params (resolution_queue self ! k))) gi))))"
proof -
  let ?s = "run_state self vecs dfa dfb preds sa sb"
  let ?j = "resolution_queue self ! k"
  obtain g' where rq: "resolve_queue ?s (resolution_queue self) g = (Inr cols, g')"
    using fused_columns_started [OF assms(1)]
    by (cases "resolve_queue ?s (resolution_queue self) g") simp
  from resolve_queue_columns [OF rq] assms(2) obtain data gk where
    d: "job_series ?s ?j = Inr (Some data)" and
    c: "cols ! k = fst (resolve ?s (job_fun ?j) data (job_params ?j) gk)"
    by blast
  have len: "length (cols ! k) = length data"
    using c labels_resolve [of ?s "job_fun ?j" data "job_params ?j" gk]
    by (metis length_map)
  have rows: "\<forall>i < length data. \<exists>gi.
               cols ! k ! i =
               (fst (data ! i), fst (job_fun ?j (snd (data ! i)) (star_args (job_params ?j)) gi))"
    using c nth_resolve by simp
  have defaults:
    "job_params (last (resolution_queue (no_gossiping f s c1 c2))) = None"
    "job_params (last (resolution_queue (roll_the_dice f s c1 c2))) = None"
    "job_params (last (resolution_queue (cry_with_the_wolves f s c1 c2))) = None"
    by (simp_all add: no_gossiping_def roll_the_dice_def cry_with_the_wolves_def queue_resolve_def)
  from defaults d len rows show ?thesis by auto
qed

theorem fuse_applies_strategy_witness:
  "fused_columns scenario_engine scenario_vectors (Some scenario_a) (Some scenario_b) None
     ''_a'' ''_b'' 0 = Inr [[(VInt 0, VStr ''Jon'')]] \<and>
   0 < length (resolution_queue scenario_engine) \<and>
   (\<exists>data.
      job_series (run_state scenario_engine scenario_vectors (Some scenario_a)
                    (Some scenario_b) None ''_a'' ''_b'')
        (resolution_queue scenario_engine ! 0) = Inr (Some data) \<and>
      length ([[(VInt 0, VStr ''Jon'')]] ! 0) = length data \<and>
      (\<forall>i < length data. \<exists>gi.
         [[(VInt 0, VStr ''Jon'')]] ! 0 ! i =
         (fst (data ! i),
          fst (job_fun (resolution_queue scenario_engine ! 0) (snd (data ! i))
                 (star_args (job_params (resolution_queue scenario_engine ! 0))) gi))))"
proof -
  have k: "0 < length (resolution_queue scenario_engine)"
    by (simp add: scenario_engine_def no_gossiping_def queue_resolve_def new_engine_def)
  from fuse_applies_strategy [OF scenario_fused_columns k] scenario_fused_columns k
  show ?thesis by blast
qed

section \<open>Static metadata\<close>

lemma zip_star_map:
  "hs \<noteq> [] \<Longrightarrow> zip_star (map (\<lambda>h. map h ps) hs) = map (\<lambda>p. map (\<lambda>h. h p) hs) ps"
proof (induction hs rule: induct_list012)
  case 1
  then show ?case by simp
next
  case (2 h)
  show ?case by simp
next
  case (3 h h' hs)
  then have ih: "zip_star (map (\<lambda>h. map h ps) (h' # hs)) = map (\<lambda>p. map (\<lambda>h. h p) (h' # hs)) ps"
    by simp
  have "zip_star (map (\<lambda>h. map h ps) (h # h' # hs)) =
        map (\<lambda>xr. fst xr # snd xr) (zip (map h ps) (zip_star (map (\<lambda>h. map h ps) (h' # hs))))"
    by simp
  also have "\<dots> = map (\<lambda>xr. fst xr # snd xr) (zip (map h ps) (map (\<lambda>p. map (\<lambda>h. h p) (h' # hs)) ps))"
    by (simp only: ih)
  also have "\<dots> = map (\<lambda>p. map (\<lambda>h. h p) (h # h' # hs)) ps"
    by (simp add: zip_map_map zip_same_conv_map)
  finally show ?case .
qed

lemma zip_star_replicate:
  assumes "cs \<noteq> []"
  shows "zip_star (map (replicate m) cs) = replicate m cs"
proof -
  have "map (replicate m) cs = map (\<lambda>h. map h [0..<m]) (map (\<lambda>c i. c) cs)"
    by (simp add: map_replicate_const)
  also have "zip_star \<dots> = map (\<lambda>p. map (\<lambda>h. h p) (map (\<lambda>c i. c) cs)) [0..<m]"
    using assms by (intro zip_star_map) simp
  also have "\<dots> = replicate m cs"
    by (simp add: o_def map_replicate_const)
  finally show ?thesis .
qed

lemma pd_Series_index_values: "pd_Series_index data labels = Inr s \<Longrightarrow> map snd s = data"
  by (auto simp: pd_Series_index_def split: if_splits)

lemma collect_static_values:
  "collect_static ix k c n = Inr ss \<Longrightarrow>
   \<exists>m. map (map snd) ss = replicate n (replicate m c) \<and> 
       (n > 0 \<longrightarrow> index_len ix = Inr m)"
proof (induction n arbitrary: ss)
  case 0
  then show ?case by simp
next
  case (Suc n)
  from Suc.prems obtain len labels s rest where
    len: "index_len ix = Inr len" and
    s: "pd_Series_index (replicate len c) labels = Inr s" and
    rest: "collect_static ix k c n = Inr rest" and
    ss: "ss = s # rest"
    by (fastforce split: sum.splits)
  have sv: "map snd s = replicate len c"
    using pd_Series_index_values [OF s] .
  from Suc.IH [OF rest] obtain m where
    m: "map (map snd) rest = replicate n (replicate m c)" and mlen: "n > 0 \<longrightarrow> index_len ix = Inr m"
    by blast
  show ?case
  proof (cases n)
    case 0
    with m sv ss len show ?thesis by auto
  next
    case (Suc k)
    with mlen len have "m = len" by simp
    with m sv ss len show ?thesis by auto
  qed
qed

lemma static_metadata_rows:
  assumes "make_metadata ix dfa dfb va vb ca cb True ga gb tm = Inr metadata"
  shows "\<forall>m \<in> set metadata. m = static_tuple va vb ca cb tm"
proof -
  from assms obtain sa sb md where
    sa: "collect_static ix (VInt 0) ca (length va) = Inr sa" and
    sb: "collect_static ix (VInt 1) cb (length vb) = Inr sb" and
    md: "apply_transform tm (sa @ sb) = Inr md" and
    meta: "metadata = map VTuple (zip_star (map (map snd) md))"
    by (auto simp: make_metadata_def split: sum.splits)
  from collect_static_values [OF sa] obtain ma where
    va: "map (map snd) sa = replicate (length va) (replicate ma ca)" and
    la: "length va > 0 \<longrightarrow> index_len ix = Inr ma" by blast
  from collect_static_values [OF sb] obtain mb where
    vb: "map (map snd) sb = replicate (length vb) (replicate mb cb)" and
    lb: "length vb > 0 \<longrightarrow> index_len ix = Inr mb" by blast
  define n where "n = (if length va > 0 then ma else mb)"
  have va': "map (map snd) sa = replicate (length va) (replicate n ca)"
    using va by (cases "length va > 0") (simp_all add: n_def)
  have vb': "map (map snd) sb = replicate (length vb) (replicate n cb)"
    using vb la lb by (cases "length vb > 0"; cases "length va > 0") (auto simp: n_def)
  have tv: "map (map snd) md =
            map (replicate n) (replicate (length va) (transformed tm ca) @
                               replicate (length vb) (transformed tm cb))"
  proof (cases tm)
    case None
    with md va' vb' show ?thesis by (auto simp: apply_transform_def)
  next
    case (Some t)
    show ?thesis
    proof (cases t)
      case (Callable f)
      with Some md have "md = map (series_apply f) (sa @ sb)"
        by (simp add: apply_transform_def)
      then have "map (map snd) md = map (map f) (map (map snd) (sa @ sb))"
        by (simp add: series_apply_def o_def)
      with va' vb' Some Callable show ?thesis by simp
    next
      case (NotCallable v)
      with Some md have "md = []" "sa @ sb = []"
        by (auto simp: apply_transform_def split: if_splits)
      with va' vb' show ?thesis by (cases "length va"; cases "length vb") simp_all
    qed
  qed
  show ?thesis
  proof (cases "length va + length vb = 0")
    case True
    with tv meta show ?thesis by simp
  next
    case False
    then have ne: "replicate (length va) (transformed tm ca) @
                   replicate (length vb) (transformed tm cb) \<noteq> []" by auto
    from meta show ?thesis
      unfolding tv zip_star_replicate [OF ne] static_tuple_def by auto
  qed
qed

lemmas eval_defs =
  FuseLinks_make_resolution_series_def make_value_data_def make_metadata_def
  generalize_flags_def apply_transform_def series_apply_def
  frame_getitem_def index_getitem_def index_len_def pd_Series_def pd_Series_index_def
  range_index_def to_frame_def level_label_def run_state_def fusion_setup_def
  fusion_init_def new_engine_def Let_def

lemma static_example:
  "FuseLinks_make_resolution_series scenario_state (VStr ''name'') (VStr ''name'')
     (Some (VStr ''source_x'')) (Some (VStr ''source_y'')) None None True =
   Inr [(VInt 0, VTuple [VTuple [VStr ''Jon'', VStr ''John''],
                         VTuple [VStr ''source_x'', VStr ''source_y'']])]"
  by (simp add: eval_defs scenario_state_def scenario_a_def scenario_b_def scenario_vectors_def)

text \<open>
  C3, as stated, fails: \<open>transform_meta\<close> is applied to the static metadata series as to
  any other, so with a transform the elements of the metadata tuple are not the constants
  supplied.
\<close>

theorem static_metadata_transformed_counterexample:
  "FuseLinks_make_resolution_series scenario_state (VStr ''name'') (VStr ''name'')
     (Some (VStr ''source_x'')) (Some (VStr ''source_y'')) None
     (Some (Callable (\<lambda>v. VList [v]))) True =
   Inr [(VInt 0, VTuple [VTuple [VStr ''Jon'', VStr ''John''],
                         VTuple [VList [VStr ''source_x''], VList [VStr ''source_y'']]])] \<and>
   VTuple [VList [VStr ''source_x''], VList [VStr ''source_y'']] \<noteq>
   VTuple [VStr ''source_x'', VStr ''source_y'']"
  by (simp add: eval_defs scenario_state_def scenario_a_def scenario_b_def scenario_vectors_def)

text \<open>
  C3, amended. For every job with static metadata, whatever the pair index and the tables
  hold, the metadata tuple of every aligned pair record is the side-A constant, once per
  value column of side A, followed by the side-B constant, once per value column of side
  B, each passed through \<open>transform_meta\<close> when one is supplied. No table is looked up
  for it; without a transform every element is the literal constant of its side.
\<close>

theorem static_metadata_tuple:
  assumes "FuseLinks_make_resolution_series self va vb (Some ca) (Some cb) tv tm True = Inr out"
  shows "\<forall>row \<in> set out. \<exists>vt.
           snd row = VTuple [vt, static_tuple (listify va) (listify vb) ca cb tm]"
proof -
  from assms obtain dfa dfb value_data metadata where
    md: "make_metadata (index self) dfa dfb (listify va) (listify vb) ca cb True None None tm
           = Inr metadata" and
    out: "out = pd_Series (map (\<lambda>vm. VTuple [fst vm, snd vm]) (zip value_data metadata))"
    by (auto simp: FuseLinks_make_resolution_series_def Let_def
             split: option.splits if_splits sum.splits)
  show ?thesis
  proof
    fix row assume "row \<in> set out"
    then have "snd row \<in> set (map snd out)" by simp
    then have "snd row \<in> set (map (\<lambda>vm. VTuple [fst vm, snd vm]) (zip value_data metadata))"
      unfolding out by simp
    then obtain v m where vm: "(v, m) \<in> set (zip value_data metadata)" and
      r: "snd row = VTuple [v, m]" by auto
    from vm have "m \<in> set metadata" by (rule set_zip_rightD)
    with static_metadata_rows [OF md]
    have "m = static_tuple (listify va) (listify vb) ca cb tm" by blast
    with r show "\<exists>vt. snd row = VTuple [vt, static_tuple (listify va) (listify vb) ca cb tm]"
      by simp
  qed
qed

theorem static_metadata_tuple_witness:
  "FuseLinks_make_resolution_series scenario_state (VStr ''name'') (VStr ''name'')
     (Some (VStr ''source_x'')) (Some (VStr ''source_y'')) None None True =
   Inr [(VInt 0, VTuple [VTuple [VStr ''Jon'', VStr ''John''],
                         VTuple [VStr ''source_x'', VStr ''source_y'']])] \<and>
   (\<exists>vt. VTuple [VTuple [VStr ''Jon'', VStr ''John''],
                 VTuple [VStr ''source_x'', VStr ''source_y'']] =
         VTuple [vt, static_tuple (listify (VStr ''name'')) (listify (VStr ''name''))
                       (VStr ''source_x'') (VStr ''source_y'') None])"
  using static_metadata_tuple [OF static_example] static_example by simp

section \<open>Generalized values\<close>

text \<open>
  C1. The claim does not hold of the code. Side A has one value column and three metadata
  columns, and the only pair matches record \<open>a2\<close>, whose name is \<open>Ann\<close>. The generalized
  branch appends the whole column \<^verbatim>\<open>df_a[values_a[0]]\<close>, in table order and without
  \<^verbatim>\<open>.loc[list(self.index[0])]\<close>, so the pair's values tuple repeats \<open>Jon\<close>, the name of
  record \<open>a1\<close>; the metadata tuple next to it is the one of record \<open>a2\<close>.
\<close>

theorem generalized_values_misaligned:
  "FuseLinks_make_resolution_series broadcast_state (VStr ''name'') (VStr ''name'')
     (Some (VList [VStr ''m1'', VStr ''m2'', VStr ''m3''])) (Some (VStr ''m'')) None None False =
   Inr [(VInt 0, VTuple [VTuple [VStr ''Jon'', VStr ''Jon'', VStr ''Jon'', VStr ''John''],
                         VTuple [VInt 2, VInt 4, VInt 6, VInt 7]])] \<and>
   mi_pairs (pv_index broadcast_vectors) = [(VStr ''a2'', VStr ''b1'')] \<and>
   cell broadcast_a (VStr ''name'') (VStr ''a2'') = VStr ''Ann''"
  by (simp add: eval_defs broadcast_state_def broadcast_a_def broadcast_b_def
        broadcast_vectors_def cell_def series_get_def)

section \<open>A pair index with named levels\<close>



lemma series_loc_lookup: "series_loc s ls = Inl e \<Longrightarrow> is_lookup_error e"
  by (induction ls arbitrary: e) (auto split: list.splits sum.splits)



lemma collect_generalized_length:
  "collect_generalized df names n = Inr ss \<Longrightarrow> length ss = n"
  by (induction n arbitrary: ss) (auto split: sum.splits list.splits)


lemma apply_transform_callable:
  "\<not> not_callable t \<Longrightarrow> \<exists>data'. apply_transform t data = Inr data'"
  by (cases t; auto simp: apply_transform_def split: transform.splits)



lemma series_without_metadata:
  assumes "df_a self = Some dfa" "df_b self = Some dfb"
      and "\<not> not_callable tv" "\<not> not_callable tm"
  shows "FuseLinks_make_resolution_series self va vb None None tv tm st =
         (case make_value_data (index self) dfa dfb (listify va) (listify vb) [] []
                 None None tv of
            Inl e \<Rightarrow> Inl e
          | Inr value_data \<Rightarrow> Inr (pd_Series (map (\<lambda>v. VTuple [v]) value_data)))"
  by (simp add: FuseLinks_make_resolution_series_def assms Let_def cong: sum.case_cong)

lemma series_with_metadata:
  assumes "df_a self = Some dfa" "df_b self = Some dfb"
      and "\<not> not_callable tv" "\<not> not_callable tm"
  shows "FuseLinks_make_resolution_series self va vb (Some ma) (Some mb) tv tm st =
         (case make_value_data (index self) dfa dfb (listify va) (listify vb)
                 (listify ma) (listify mb)
                 (if st then None else fst (generalize_flags (listify va) (listify ma)))
                 (if st then None else fst (generalize_flags (listify vb) (listify mb))) tv of
            Inl e \<Rightarrow> Inl e
          | Inr value_data \<Rightarrow>
              (case make_metadata (index self) dfa dfb (listify va) (listify vb) ma mb st
                      (if st then None else snd (generalize_flags (listify va) (listify ma)))
                      (if st then None else snd (generalize_flags (listify vb) (listify mb)))
                      tm of
                 Inl e \<Rightarrow> Inl e
               | Inr metadata \<Rightarrow>
                   Inr (pd_Series (map (\<lambda>vm. VTuple [fst vm, snd vm])
                                       (zip value_data metadata)))))"
  by (simp add: FuseLinks_make_resolution_series_def assms Let_def cong: sum.case_cong)








section \<open>A pair index without pairs\<close>

lemma zip_star_has_empty: "[] \<in> set cols \<Longrightarrow> zip_star cols = []"
proof (induction cols rule: zip_star.induct)
  case 1
  then show ?case by simp
next
  case (2 c)
  then show ?case by simp
next
  case (3 c d cs)
  show ?case
  proof (cases "c = []")
    case True
    then show ?thesis by simp
  next
    case False
    with 3 show ?thesis by simp
  qed
qed

lemma rows_of_empty_columns:
  assumes "\<not> not_callable t" and "data = [] \<or> [] \<in> set data"
  shows "\<exists>d. apply_transform t data = Inr d \<and> zip_star (map (map snd) d) = []"
proof (cases t)
  case None
  from assms(2) have "zip_star (map (map snd) data) = []"
  proof
    assume "data = []"
    then show ?thesis by simp
  next
    assume "[] \<in> set data"
    then have "[] \<in> set (map (map snd) data)" by (auto simp: image_iff)
    then show ?thesis by (rule zip_star_has_empty)
  qed
  with None show ?thesis by (simp add: apply_transform_def)
next
  case (Some tr)
  with assms(1) obtain f where f: "tr = Callable f" by (cases tr) auto
  from assms(2) have "zip_star (map (map snd) (map (series_apply f) data)) = []"
  proof
    assume "data = []"
    then show ?thesis by simp
  next
    assume "[] \<in> set data"
    then have "[] \<in> set (map (map snd) (map (series_apply f) data))"
      by (auto simp: series_apply_def image_iff)
    then show ?thesis by (rule zip_star_has_empty)
  qed
  with Some f show ?thesis by (simp add: apply_transform_def)
qed

lemma collect_direct_no_pairs:
  assumes "has_columns df names" and "index_getitem ix k = Inr []"
  shows "collect_direct df ix k names = Inr (replicate (length names) [])"
  using assms(1)
proof (induction names)
  case Nil
  then show ?case by simp
next
  case (Cons name names)
  then obtain vs where "map_of (fr_columns df) name = Some vs" and "has_columns df names"
    by (auto simp: has_columns_def)
  with Cons.IH assms(2) show ?case
    by (simp add: frame_getitem_def)
qed

lemma collect_generalized_columns:
  assumes "has_columns df names" and "names \<noteq> []"
  shows "\<exists>col. collect_generalized df names n = Inr (replicate n col)"
proof -
  from assms obtain name0 others vs where
    n: "names = name0 # others" and vs: "map_of (fr_columns df) name0 = Some vs"
    by (cases names) (auto simp: has_columns_def)
  have "collect_generalized df names n = Inr (replicate n (zip (fr_index df) vs))"
    by (induction n) (simp_all add: n frame_getitem_def vs)
  then show ?thesis by blast
qed

lemma collect_static_no_pairs:
  assumes "index_len ix = Inr 0" and "index_getitem ix k = Inr []"
  shows "collect_static ix k c n = Inr (replicate n [])"
  by (induction n) (simp_all add: assms pd_Series_index_def)

lemma side_no_pairs:
  assumes "has_columns df names" and "index_getitem ix k = Inr []"
      and "gen = Some True \<longrightarrow> names \<noteq> []"
  shows "\<exists>ss. (if gen = Some True then collect_generalized df names n
               else collect_direct df ix k names) = Inr ss \<and>
              (gen \<noteq> Some True \<longrightarrow> ss = replicate (length names) [])"
proof (cases "gen = Some True")
  case True
  with assms(3) have "names \<noteq> []" by simp
  from collect_generalized_columns [OF assms(1) this, of n] True show ?thesis by auto
next
  case False
  with collect_direct_no_pairs [OF assms(1,2)] show ?thesis by simp
qed

lemma empty_column_among:
  assumes "sa = replicate na []" and "na \<noteq> 0"
  shows "[] \<in> set (sa @ sb)" and "[] \<in> set (sb @ sa)"
  using assms by auto

lemma make_value_data_no_pairs:
  assumes ha: "has_columns dfa va" and hb: "has_columns dfb vb"
      and e0: "index_getitem ix (VInt 0) = Inr []" and e1: "index_getitem ix (VInt 1) = Inr []"
      and t: "\<not> not_callable t"
      and na: "ga = Some True \<longrightarrow> va \<noteq> []" and nb: "gb = Some True \<longrightarrow> vb \<noteq> []"
  shows "\<exists>rows. make_value_data ix dfa dfb va vb ma mb ga gb t = Inr rows \<and>
           ((ga \<noteq> Some True \<and> gb \<noteq> Some True) \<or> (ga \<noteq> Some True \<and> va \<noteq> []) \<or>
            (gb \<noteq> Some True \<and> vb \<noteq> []) \<longrightarrow> rows = [])"
proof -
  from side_no_pairs [OF ha e0 na, of "length ma"] obtain sa where
    sa: "(if ga = Some True then collect_generalized dfa va (length ma)
          else collect_direct dfa ix (VInt 0) va) = Inr sa" and
    da: "ga \<noteq> Some True \<longrightarrow> sa = replicate (length va) []" by blast
  from side_no_pairs [OF hb e1 nb, of "length mb"] obtain sb where
    sb: "(if gb = Some True then collect_generalized dfb vb (length mb)
          else collect_direct dfb ix (VInt 1) vb) = Inr sb" and
    db: "gb \<noteq> Some True \<longrightarrow> sb = replicate (length vb) []" by blast
  have unfold: "make_value_data ix dfa dfb va vb ma mb ga gb t =
        (case apply_transform t (sa @ sb) of
           Inl e \<Rightarrow> Inl e
         | Inr value_data \<Rightarrow> Inr (map VTuple (zip_star (map (map snd) value_data))))"
    unfolding make_value_data_def sa sb by simp
  show ?thesis
  proof (cases "(ga \<noteq> Some True \<and> gb \<noteq> Some True) \<or> (ga \<noteq> Some True \<and> va \<noteq> []) \<or>
                (gb \<noteq> Some True \<and> vb \<noteq> [])")
    case True
    have "sa @ sb = [] \<or> [] \<in> set (sa @ sb)"
    proof (cases "va = [] \<and> vb = []")
      case True
      with na nb da db show ?thesis by auto
    next
      case False
      with True da db show ?thesis
        by (auto intro: empty_column_among)
    qed
    from rows_of_empty_columns [OF t this] obtain d where
      "apply_transform t (sa @ sb) = Inr d" "zip_star (map (map snd) d) = []" by blast
    then show ?thesis by (simp add: unfold)
  next
    case False
    from apply_transform_callable [OF t] obtain d where "apply_transform t (sa @ sb) = Inr d"
      by blast
    with False show ?thesis by (auto simp: unfold)
  qed
qed

lemma make_metadata_no_pairs:
  assumes ha: "has_columns dfa (listify ma)" and hb: "has_columns dfb (listify mb)"
      and e0: "index_getitem ix (VInt 0) = Inr []" and e1: "index_getitem ix (VInt 1) = Inr []"
      and t: "\<not> not_callable t"
      and na: "ga = Some True \<longrightarrow> listify ma \<noteq> []"
      and nb: "gb = Some True \<longrightarrow> listify mb \<noteq> []"
  shows "\<exists>rows. make_metadata ix dfa dfb va vb ma mb False ga gb t = Inr rows \<and>
           ((ga \<noteq> Some True \<and> listify ma \<noteq> []) \<or>
            (gb \<noteq> Some True \<and> listify mb \<noteq> []) \<longrightarrow> rows = [])"
proof -
  from side_no_pairs [OF ha e0 na, of "length va"] obtain sa where
    sa: "(if ga = Some True then collect_generalized dfa (listify ma) (length va)
          else collect_direct dfa ix (VInt 0) (listify ma)) = Inr sa" and
    da: "ga \<noteq> Some True \<longrightarrow> sa = replicate (length (listify ma)) []" by blast
  from side_no_pairs [OF hb e1 nb, of "length vb"] obtain sb where
    sb: "(if gb = Some True then collect_generalized dfb (listify mb) (length vb)
          else collect_direct dfb ix (VInt 1) (listify mb)) = Inr sb" and
    db: "gb \<noteq> Some True \<longrightarrow> sb = replicate (length (listify mb)) []" by blast
  have unfold: "make_metadata ix dfa dfb va vb ma mb False ga gb t =
        (case apply_transform t (sa @ sb) of
           Inl e \<Rightarrow> Inl e
         | Inr metadata \<Rightarrow> Inr (map VTuple (zip_star (map (map snd) metadata))))"
    unfolding make_metadata_def using sa sb by simp
  show ?thesis
  proof (cases "(ga \<noteq> Some True \<and> listify ma \<noteq> []) \<or> (gb \<noteq> Some True \<and> listify mb \<noteq> [])")
    case True
    with da db have "[] \<in> set (sa @ sb)"
      by (auto intro: empty_column_among)
    then have "sa @ sb = [] \<or> [] \<in> set (sa @ sb)" by simp
    from rows_of_empty_columns [OF t this] obtain d where
      "apply_transform t (sa @ sb) = Inr d" "zip_star (map (map snd) d) = []" by blast
    then show ?thesis by (simp add: unfold)
  next
    case False
    from apply_transform_callable [OF t] obtain d where "apply_transform t (sa @ sb) = Inr d"
      by blast
    with False show ?thesis by (auto simp: unfold)
  qed
qed

lemma make_metadata_static_no_pairs:
  assumes len: "index_len ix = Inr 0"
      and e0: "index_getitem ix (VInt 0) = Inr []" and e1: "index_getitem ix (VInt 1) = Inr []"
      and t: "\<not> not_callable t"
  shows "\<exists>rows. make_metadata ix dfa dfb va vb ma mb True ga gb t = Inr rows"
proof -
  from apply_transform_callable [OF t] obtain d where
    "apply_transform t (replicate (length va) [] @ replicate (length vb) []) = Inr d" by blast
  then show ?thesis
    by (simp add: make_metadata_def collect_static_no_pairs [OF len e0]
          collect_static_no_pairs [OF len e1])
qed

lemma series_no_pairs:
  assumes tabs: "df_a self = Some dfa" "df_b self = Some dfb"
      and e0: "index_getitem (index self) (VInt 0) = Inr []"
      and e1: "index_getitem (index self) (VInt 1) = Inr []"
      and len: "index_len (index self) = Inr 0"
      and v: "valid_job dfa dfb j"
  shows "FuseLinks_make_resolution_series self (job_values_a j) (job_values_b j)
           (job_meta_a j) (job_meta_b j) (job_transform_vals j) (job_transform_meta j)
           (job_static_meta j) = Inr []"
proof -
  let ?va = "listify (job_values_a j)" and ?vb = "listify (job_values_b j)"
  from v have ctv: "\<not> not_callable (job_transform_vals j)"
    and ctm: "\<not> not_callable (job_transform_meta j)"
    and ha: "has_columns dfa ?va" and hb: "has_columns dfb ?vb"
    by (simp_all add: valid_job_def)
  note N = series_without_metadata [OF tabs ctv ctm]
  note S = series_with_metadata [OF tabs ctv ctm]
  show ?thesis
  proof (cases "job_meta_a j")
    case None
    with v have mb: "job_meta_b j = None"
      by (cases "job_meta_b j") (simp_all add: valid_job_def)
    from make_value_data_no_pairs [OF ha hb e0 e1 ctv, of None None "[]" "[]"]
    have "make_value_data (index self) dfa dfb ?va ?vb [] [] None None (job_transform_vals j)
          = Inr []" by auto
    then show ?thesis unfolding None mb N by (simp add: pd_Series_def range_index_def)
  next
    case (Some ma)
    with v obtain mb where mb: "job_meta_b j = Some mb"
      by (cases "job_meta_b j") (simp_all add: valid_job_def)
    show ?thesis
    proof (cases "job_static_meta j")
      case True
      from make_value_data_no_pairs [OF ha hb e0 e1 ctv, of None None "listify ma" "listify mb"]
      have vd: "make_value_data (index self) dfa dfb ?va ?vb (listify ma) (listify mb) None None
              (job_transform_vals j) = Inr []" by auto
      from make_metadata_static_no_pairs [OF len e0 e1 ctm] obtain rows where
        "make_metadata (index self) dfa dfb ?va ?vb ma mb True None None
           (job_transform_meta j) = Inr rows" by blast
      with vd True show ?thesis unfolding Some mb S
        by (simp add: pd_Series_def range_index_def)
    next
      case False
      let ?ga = "generalize_flags ?va (listify ma)" and ?gb = "generalize_flags ?vb (listify mb)"
      from v Some mb False have hma: "has_columns dfa (listify ma)"
        and hmb: "has_columns dfb (listify mb)"
        and ea: "?va = [] \<longleftrightarrow> listify ma = []" and eb: "?vb = [] \<longleftrightarrow> listify mb = []"
        by (simp_all add: valid_job_def)
      have va: "fst ?ga = Some True \<longrightarrow> ?va \<noteq> []" and vb: "fst ?gb = Some True \<longrightarrow> ?vb \<noteq> []"
        and ma: "snd ?ga = Some True \<longrightarrow> listify ma \<noteq> []"
        and mb': "snd ?gb = Some True \<longrightarrow> listify mb \<noteq> []"
        using ea eb by (auto simp: generalize_flags_def split: if_splits)
      from make_value_data_no_pairs [OF ha hb e0 e1 ctv va vb, of "listify ma" "listify mb"]
      obtain rows where
        r: "make_value_data (index self) dfa dfb ?va ?vb (listify ma) (listify mb)
              (fst ?ga) (fst ?gb) (job_transform_vals j) = Inr rows" and
        re: "fst ?ga \<noteq> Some True \<and> fst ?gb \<noteq> Some True \<longrightarrow> rows = []" by blast
      from make_metadata_no_pairs [OF hma hmb e0 e1 ctm ma mb', of ?va ?vb]
      obtain mrows where
        m: "make_metadata (index self) dfa dfb ?va ?vb ma mb False
              (snd ?ga) (snd ?gb) (job_transform_meta j) = Inr mrows" and
        me: "(snd ?ga \<noteq> Some True \<and> listify ma \<noteq> []) \<or>
             (snd ?gb \<noteq> Some True \<and> listify mb \<noteq> []) \<longrightarrow> mrows = []" by blast
      have "rows = [] \<or> mrows = []"
      proof (cases "fst ?ga \<noteq> Some True \<and> fst ?gb \<noteq> Some True")
        case True
        with re show ?thesis by simp
      next
        case False
        then have "(snd ?ga \<noteq> Some True \<and> listify ma \<noteq> []) \<or>
                   (snd ?gb \<noteq> Some True \<and> listify mb \<noteq> [])"
          by (auto simp: generalize_flags_def split: if_splits)
        with me show ?thesis by simp
      qed
      then have "zip rows mrows = []" by auto
      with r m False show ?thesis unfolding Some mb S
        by (simp add: pd_Series_def range_index_def)
    qed
  qed
qed

lemma resolve_queue_no_pairs:
  assumes c: "cls self = FuseLinks ua ub"
      and tabs: "df_a self = Some dfa" "df_b self = Some dfb"
      and e0: "index_getitem (index self) (VInt 0) = Inr []"
      and e1: "index_getitem (index self) (VInt 1) = Inr []"
      and len: "index_len (index self) = Inr 0"
  shows "\<forall>j \<in> set q. valid_job dfa dfb j \<Longrightarrow>
         resolve_queue self q g = (Inr (replicate (length q) []), g)"
proof (induction q)
  case Nil
  then show ?case by simp
next
  case (Cons j jobs)
  then have v: "valid_job dfa dfb j" and rest: "\<forall>j \<in> set jobs. valid_job dfa dfb j"
    by simp_all
  have "job_series self j = Inr (Some [])"
    by (simp add: job_series_def make_resolution_series_def c
          series_no_pairs [OF tabs e0 e1 len v])
  with Cons.IH [OF rest] show ?case by (simp add: resolve_def)
qed

lemma pd_concat_empty_columns:
  "0 < k \<Longrightarrow>
   pd_concat (replicate k []) =
   Inr \<lparr>fr_index = [], fr_columns = map (\<lambda>i. (VInt (int i), [])) [0..<k]\<rparr>"
proof -
  assume k: "0 < k"
  have ix: "foldl index_union [] (replicate n []) = []" for n
    by (induction n) (simp_all add: index_union_def)
  have "enumerate 0 (replicate k ([] :: series)) = map (\<lambda>i. (i, [])) [0..<k]"
    by (auto simp: enumerate_eq_zip intro!: nth_equalityI)
  then have "map (\<lambda>js. (VInt (int (fst js)), map (series_get (snd js)) []))
               (enumerate 0 (replicate k ([] :: series))) =
             map (\<lambda>i. (VInt (int i), [])) [0..<k]"
    by (simp add: o_def)
  with k show ?thesis
    using ix [of k] by (simp add: pd_concat_def Let_def del: replicate_eq_replicate)
qed

text \<open>
  C8, as stated, fails for a pair index with named levels: \<^verbatim>\<open>self.index[0]\<close> is evaluated
  for every value column whatever the number of pairs, and with zero pairs and a valid job
  \<^verbatim>\<open>fuse\<close> raises the KeyError.
\<close>

theorem fuse_zero_pairs_counterexample:
  "resolution_queue scenario_engine \<noteq> [] \<and>
   valid_job scenario_a scenario_b (hd (resolution_queue scenario_engine)) \<and>
   mi_pairs (pv_index named_empty_vectors) = [] \<and>
   fst (fuse scenario_engine named_empty_vectors (Some scenario_a) (Some scenario_b) None
          ''_a'' ''_b'' 0) = Inl (KeyError (VInt 0))"
  by (simp add: fuse_def scenario_engine_def no_gossiping_def queue_resolve_def new_engine_def
        fusion_setup_def fusion_init_def job_series_def make_resolution_series_def
        FuseLinks_make_resolution_series_def make_value_data_def
        scenario_a_def scenario_b_def named_empty_vectors_def to_frame_def level_label_def
        frame_getitem_def index_getitem_def valid_job_def has_columns_def Let_def)

text \<open>
  C8, amended. For a \<^verbatim>\<open>FuseLinks\<close> engine with a non-empty queue of valid jobs (jobs that
  pass validation and name only columns their tables have) over tables with distinct
  column labels, \<^verbatim>\<open>fuse\<close> with an unnamed pair index of zero pairs raises no error: the
  aligned sequence of every job is empty, and the result is a table without rows and with
  one column per queued job.
\<close>

theorem fuse_zero_pairs:
  assumes cls: "cls self = FuseLinks ua ub"
      and queue: "resolution_queue self \<noteq> []"
      and tables: "distinct_columns dfa" "distinct_columns dfb"
      and valid: "\<forall>j \<in> set (resolution_queue self). valid_job dfa dfb j"
      and names: "mi_names (pv_index vecs) = (None, None)"
      and pairs: "mi_pairs (pv_index vecs) = []"
  shows "fst (fuse self vecs (Some dfa) (Some dfb) preds sa sb g) =
           Inr \<lparr>fr_index = [],
                fr_columns = map (\<lambda>i. (VInt (int i), []))
                                 [0..<length (resolution_queue self)]\<rparr> \<and>
         (\<forall>j \<in> set (resolution_queue self).
            job_series (run_state self vecs (Some dfa) (Some dfb) preds sa sb) j
              = Inr (Some []))"
proof -
  let ?s = "run_state self vecs (Some dfa) (Some dfb) preds sa sb"
  note f = to_frame_unnamed [OF names]
  have c: "cls ?s = FuseLinks ua ub" using cls by (simp add: run_state_keeps)
  have tabs: "df_a ?s = Some dfa" "df_b ?s = Some dfb"
    by (simp_all add: run_state_fields [OF f])
  have e0: "index_getitem (index ?s) (VInt 0) = Inr []"
    and e1: "index_getitem (index ?s) (VInt 1) = Inr []"
    and len: "index_len (index ?s) = Inr 0"
    using pairs
    by (simp_all add: run_state_fields(1) [OF f] index_getitem_def index_len_def
          frame_getitem_def)
  have cols: "fused_columns self vecs (Some dfa) (Some dfb) preds sa sb g =
              Inr (replicate (length (resolution_queue self)) [])"
    using resolve_queue_no_pairs [OF c tabs e0 e1 len valid, of g]
    by (simp add: fused_columns_running [OF f])
  have k: "0 < length (resolution_queue self)" using queue by simp
  have series: "\<forall>j \<in> set (resolution_queue self). job_series ?s j = Inr (Some [])"
  proof
    fix j assume "j \<in> set (resolution_queue self)"
    with valid have "valid_job dfa dfb j" by blast
    from series_no_pairs [OF tabs e0 e1 len this] show "job_series ?s j = Inr (Some [])"
      by (simp add: job_series_def make_resolution_series_def c)
  qed
  from cols pd_concat_empty_columns [OF k] series show ?thesis
    by (simp add: fuse_result)
qed

theorem fuse_zero_pairs_witness:
  "cls scenario_engine = FuseLinks False False \<and>
   resolution_queue scenario_engine \<noteq> [] \<and>
   distinct_columns scenario_a \<and> distinct_columns scenario_b \<and>
   valid_job scenario_a scenario_b (hd (resolution_queue scenario_engine)) \<and>
   mi_pairs (pv_index empty_vectors) = [] \<and>
   fst (fuse scenario_engine empty_vectors (Some scenario_a) (Some scenario_b) None
          ''_a'' ''_b'' 0) = Inr \<lparr>fr_index = [], fr_columns = [(VInt 0, [])]\<rparr>"
proof -
  have q: "resolution_queue scenario_engine =
           [\<lparr>job_fun = first_value, job_values_a = VStr ''name'', job_values_b = VStr ''name'',
             job_meta_a = None, job_meta_b = None, job_transform_vals = None,
             job_transform_meta = None, job_static_meta = False, job_params = None,
             job_kwargs = []\<rparr>]"
    by (simp add: scenario_engine_def no_gossiping_def queue_resolve_def new_engine_def)
  have c: "cls scenario_engine = FuseLinks False False"
    by (simp add: scenario_engine_def no_gossiping_def queue_resolve_def new_engine_def)
  have ne: "resolution_queue scenario_engine \<noteq> []" by (simp add: q)
  have d: "distinct_columns scenario_a" "distinct_columns scenario_b"
    by (simp_all add: distinct_columns_def scenario_a_def scenario_b_def)
  have v: "\<forall>j \<in> set (resolution_queue scenario_engine). valid_job scenario_a scenario_b j"
    by (simp add: q valid_job_def has_columns_def scenario_a_def scenario_b_def)
  have n: "mi_names (pv_index empty_vectors) = (None, None)"
    and p: "mi_pairs (pv_index empty_vectors) = []"
    by (simp_all add: empty_vectors_def)
  from fuse_zero_pairs [OF c ne d v n p, of None "''_a''" "''_b''" 0] c ne d v p
  show ?thesis by (simp add: q)
qed

section \<open>Direct alignment\<close>

lemma filter_no_label:
  "l \<notin> set ids \<Longrightarrow> filter (\<lambda>row. fst row = l) (zip ids vs) = []"
  by (auto simp: filter_empty_conv dest: set_zip_leftD)

lemma filter_unique_label:
  "distinct ids \<Longrightarrow> length vs = length ids \<Longrightarrow> l \<in> set ids \<Longrightarrow>
   filter (\<lambda>row. fst row = l) (zip ids vs) = [(l, series_get (zip ids vs) l)]"
proof (induction ids arbitrary: vs)
  case Nil
  then show ?case by simp
next
  case (Cons i ids)
  then obtain v vs' where vs: "vs = v # vs'" by (cases vs) auto
  show ?case
  proof (cases "l = i")
    case True
    with Cons.prems have "l \<notin> set ids" by simp
    from filter_no_label [OF this, of vs'] True show ?thesis
      by (simp add: vs series_get_def)
  next
    case False
    with Cons.prems have "distinct ids" "length vs' = length ids" "l \<in> set ids"
      by (simp_all add: vs)
    from Cons.IH [OF this] False show ?thesis
      by (simp add: vs series_get_def)
  qed
qed

lemma series_loc_keyed:
  assumes "distinct ids" and "length vs = length ids"
  shows "list_all (\<lambda>l. l \<in> set ids) ls \<Longrightarrow>
         series_loc (zip ids vs) ls = Inr (map (\<lambda>l. (l, series_get (zip ids vs) l)) ls)"
proof (induction ls)
  case Nil
  then show ?case by simp
next
  case (Cons l ls)
  then have l: "l \<in> set ids" and rest: "list_all (\<lambda>l. l \<in> set ids) ls" by simp_all
  from filter_unique_label [OF assms l] Cons.IH [OF rest] show ?case by simp
qed

lemma column_length:
  assumes "well_formed_table df" and "map_of (fr_columns df) c = Some vs"
  shows "length vs = length (fr_index df)"
proof -
  from assms(2) have "(c, vs) \<in> set (fr_columns df)" by (rule map_of_SomeD)
  with assms(1) show ?thesis
    by (auto simp: well_formed_table_def list_all_iff)
qed

lemma collect_direct_keyed:
  assumes wf: "well_formed_table df"
      and half: "index_getitem ix k = Inr half"
      and recs: "has_records df (map snd half)"
  shows "has_columns df names \<Longrightarrow>
         collect_direct df ix k names =
         Inr (map (\<lambda>c. map (\<lambda>r. (r, cell df c r)) (map snd half)) names)"
proof (induction names)
  case Nil
  then show ?case by simp
next
  case (Cons c names)
  then obtain vs where vs: "map_of (fr_columns df) c = Some vs" and rest: "has_columns df names"
    by (auto simp: has_columns_def)
  from wf have d: "distinct (fr_index df)" by (simp add: well_formed_table_def)
  from series_loc_keyed [OF d column_length [OF wf vs], of "map snd half"] recs
  have "series_loc (zip (fr_index df) vs) (map snd half) =
        Inr (map (\<lambda>r. (r, cell df c r)) (map snd half))"
    by (simp add: has_records_def cell_def vs)
  with Cons.IH [OF rest] show ?case
    by (simp add: frame_getitem_def vs half)
qed

lemma unnamed_index:
  assumes "mi_names mi = (None, None)"
  shows "\<exists>f. to_frame mi = Inr f \<and>
           index_getitem (Some f) (VInt 0) =
             Inr (zip (map (\<lambda>p. VTuple [fst p, snd p]) (mi_pairs mi)) (map fst (mi_pairs mi))) \<and>
           index_getitem (Some f) (VInt 1) =
             Inr (zip (map (\<lambda>p. VTuple [fst p, snd p]) (mi_pairs mi)) (map snd (mi_pairs mi))) \<and>
           index_len (Some f) = Inr (length (mi_pairs mi))"
  by (simp add: to_frame_unnamed [OF assms] index_getitem_def index_len_def frame_getitem_def)

lemma apply_transform_values:
  assumes "\<not> not_callable t"
  shows "\<exists>d. apply_transform t data = Inr d \<and>
             map (map snd) d = map (map (transformed t)) (map (map snd) data)"
proof (cases t)
  case None
  then show ?thesis by (simp add: apply_transform_def)
next
  case (Some tr)
  with assms obtain f where f: "tr = Callable f" by (cases tr) auto
  with Some show ?thesis by (simp add: apply_transform_def series_apply_def o_def)
qed

lemma direct_zip:
  assumes t: "\<not> not_callable t"
      and sa: "sa = map (\<lambda>c. map (\<lambda>r. (r, cell dfa c r)) (map fst pairs)) ca"
      and sb: "sb = map (\<lambda>c. map (\<lambda>r. (r, cell dfb c r)) (map snd pairs)) cb"
  shows "\<exists>d. apply_transform t (sa @ sb) = Inr d \<and>
             map VTuple (zip_star (map (map snd) d)) =
             (if ca = [] \<and> cb = [] then [] else map (pair_tuple dfa dfb ca cb t) pairs)"
proof -
  define hs where "hs = map (\<lambda>c p. transformed t (cell dfa c (fst p))) ca @
                        map (\<lambda>c p. transformed t (cell dfb c (snd p))) cb"
  from apply_transform_values [OF t, of "sa @ sb"] obtain d where
    d: "apply_transform t (sa @ sb) = Inr d" and
    v: "map (map snd) d = map (map (transformed t)) (map (map snd) (sa @ sb))" by blast
  have cols: "map (map snd) d = map (\<lambda>h. map h pairs) hs"
    unfolding v sa sb hs_def by (simp add: o_def)
  have "map VTuple (zip_star (map (map snd) d)) =
        (if ca = [] \<and> cb = [] then [] else map (pair_tuple dfa dfb ca cb t) pairs)"
  proof (cases "ca = [] \<and> cb = []")
    case True
    then have "hs = []" by (simp add: hs_def)
    with True show ?thesis by (simp add: cols)
  next
    case False
    then have "hs \<noteq> []" by (auto simp: hs_def)
    from zip_star_map [OF this, of pairs]
    have "zip_star (map (map snd) d) = map (\<lambda>p. map (\<lambda>h. h p) hs) pairs"
      by (simp only: cols)
    then have "map VTuple (zip_star (map (map snd) d)) =
               map (\<lambda>p. VTuple (map (\<lambda>h. h p) hs)) pairs"
      by (simp add: o_def)
    also have "\<dots> = map (pair_tuple dfa dfb ca cb t) pairs"
      by (simp add: hs_def pair_tuple_def o_def)
    finally show ?thesis using False by auto
  qed
  with d show ?thesis by blast
qed

lemma static_zip:
  assumes t: "\<not> not_callable t"
      and sa: "map (map snd) sa = replicate na (replicate n ca)"
      and sb: "map (map snd) sb = replicate nb (replicate n cb)"
  shows "\<exists>d. apply_transform t (sa @ sb) = Inr d \<and>
             map VTuple (zip_star (map (map snd) d)) =
             (if na = 0 \<and> nb = 0 then []
              else replicate n (VTuple (replicate na (transformed t ca) @
                                        replicate nb (transformed t cb))))"
proof -
  define cs where "cs = replicate na (transformed t ca) @ replicate nb (transformed t cb)"
  from apply_transform_values [OF t, of "sa @ sb"] obtain d where
    d: "apply_transform t (sa @ sb) = Inr d" and
    v: "map (map snd) d = map (map (transformed t)) (map (map snd) (sa @ sb))" by blast
  have cols: "map (map snd) d = map (replicate n) cs"
    unfolding v cs_def using sa sb by simp
  have "map VTuple (zip_star (map (map snd) d)) =
        (if na = 0 \<and> nb = 0 then [] else replicate n (VTuple cs))"
  proof (cases "na = 0 \<and> nb = 0")
    case True
    then have "cs = []" by (simp add: cs_def)
    with True show ?thesis by (simp add: cols)
  next
    case False
    then have "cs \<noteq> []" by (auto simp: cs_def)
    from zip_star_replicate [OF this, of n]
    have "map VTuple (zip_star (map (map snd) d)) = replicate n (VTuple cs)"
      by (simp add: cols)
    with False show ?thesis by auto
  qed
  with d show ?thesis unfolding cs_def by blast
qed

lemma collect_static_keyed:
  assumes "index_len ix = Inr n" and "index_getitem ix k = Inr half" and "length half = n"
  shows "collect_static ix k c m = Inr (replicate m (zip (map snd half) (replicate n c)))"
  by (induction m) (simp_all add: assms pd_Series_index_def)

text \<open>The three modes in which nothing is generalized.\<close>

lemma value_data_direct:
  assumes wf: "well_formed_table dfa" "well_formed_table dfb"
      and e0: "index_getitem ix (VInt 0) = Inr h0" "map snd h0 = map fst pairs"
      and e1: "index_getitem ix (VInt 1) = Inr h1" "map snd h1 = map snd pairs"
      and recs: "has_records dfa (map fst pairs)" "has_records dfb (map snd pairs)"
      and cols: "has_columns dfa va" "has_columns dfb vb"
      and t: "\<not> not_callable t"
      and g: "ga \<noteq> Some True" "gb \<noteq> Some True"
  shows "make_value_data ix dfa dfb va vb ma mb ga gb t =
         Inr (if va = [] \<and> vb = [] then [] else map (pair_tuple dfa dfb va vb t) pairs)"
proof -
  have sa: "collect_direct dfa ix (VInt 0) va =
            Inr (map (\<lambda>c. map (\<lambda>r. (r, cell dfa c r)) (map fst pairs)) va)"
    using collect_direct_keyed [OF wf(1) e0(1) _ cols(1)] recs(1) by (simp add: e0(2))
  have sb: "collect_direct dfb ix (VInt 1) vb =
            Inr (map (\<lambda>c. map (\<lambda>r. (r, cell dfb c r)) (map snd pairs)) vb)"
    using collect_direct_keyed [OF wf(2) e1(1) _ cols(2)] recs(2) by (simp add: e1(2))
  from direct_zip [OF t refl refl, of dfa pairs va dfb vb] obtain d where
    "apply_transform t (map (\<lambda>c. map (\<lambda>r. (r, cell dfa c r)) (map fst pairs)) va @
                        map (\<lambda>c. map (\<lambda>r. (r, cell dfb c r)) (map snd pairs)) vb) = Inr d"
    "map VTuple (zip_star (map (map snd) d)) =
       (if va = [] \<and> vb = [] then [] else map (pair_tuple dfa dfb va vb t) pairs)"
    by blast
  with g show ?thesis
    unfolding make_value_data_def sa sb by simp
qed

lemma metadata_direct:
  assumes wf: "well_formed_table dfa" "well_formed_table dfb"
      and e0: "index_getitem ix (VInt 0) = Inr h0" "map snd h0 = map fst pairs"
      and e1: "index_getitem ix (VInt 1) = Inr h1" "map snd h1 = map snd pairs"
      and recs: "has_records dfa (map fst pairs)" "has_records dfb (map snd pairs)"
      and cols: "has_columns dfa (listify ma)" "has_columns dfb (listify mb)"
      and t: "\<not> not_callable t"
      and g: "ga \<noteq> Some True" "gb \<noteq> Some True"
  shows "make_metadata ix dfa dfb va vb ma mb False ga gb t =
         Inr (if listify ma = [] \<and> listify mb = [] then []
              else map (pair_tuple dfa dfb (listify ma) (listify mb) t) pairs)"
proof -
  have sa: "collect_direct dfa ix (VInt 0) (listify ma) =
            Inr (map (\<lambda>c. map (\<lambda>r. (r, cell dfa c r)) (map fst pairs)) (listify ma))"
    using collect_direct_keyed [OF wf(1) e0(1) _ cols(1)] recs(1) by (simp add: e0(2))
  have sb: "collect_direct dfb ix (VInt 1) (listify mb) =
            Inr (map (\<lambda>c. map (\<lambda>r. (r, cell dfb c r)) (map snd pairs)) (listify mb))"
    using collect_direct_keyed [OF wf(2) e1(1) _ cols(2)] recs(2) by (simp add: e1(2))
  from direct_zip [OF t refl refl, of dfa pairs "listify ma" dfb "listify mb"] obtain d where
    "apply_transform t
       (map (\<lambda>c. map (\<lambda>r. (r, cell dfa c r)) (map fst pairs)) (listify ma) @
        map (\<lambda>c. map (\<lambda>r. (r, cell dfb c r)) (map snd pairs)) (listify mb)) = Inr d"
    "map VTuple (zip_star (map (map snd) d)) =
       (if listify ma = [] \<and> listify mb = [] then []
        else map (pair_tuple dfa dfb (listify ma) (listify mb) t) pairs)"
    by blast
  with g show ?thesis
    unfolding make_metadata_def sa sb by simp
qed

lemma metadata_static:
  assumes len: "index_len ix = Inr (length pairs)"
      and e0: "index_getitem ix (VInt 0) = Inr h0" "map snd h0 = map fst pairs"
      and e1: "index_getitem ix (VInt 1) = Inr h1" "map snd h1 = map snd pairs"
      and t: "\<not> not_callable t"
  shows "make_metadata ix dfa dfb va vb ma mb True ga gb t =
         Inr (if va = [] \<and> vb = [] then []
              else replicate (length pairs) (static_tuple va vb ma mb t))"
proof -
  have l0: "length h0 = length pairs" using e0(2) by (metis length_map)
  have l1: "length h1 = length pairs" using e1(2) by (metis length_map)
  note sa = collect_static_keyed [OF len e0(1) l0, of ma "length va"]
  note sb = collect_static_keyed [OF len e1(1) l1, of mb "length vb"]
  from static_zip [OF t, of "replicate (length va) (zip (map snd h0) (replicate (length pairs) ma))"
      "length va" "length pairs" ma
      "replicate (length vb) (zip (map snd h1) (replicate (length pairs) mb))" "length vb" mb]
  obtain d where
    "apply_transform t
       (replicate (length va) (zip (map snd h0) (replicate (length pairs) ma)) @
        replicate (length vb) (zip (map snd h1) (replicate (length pairs) mb))) = Inr d"
    "map VTuple (zip_star (map (map snd) d)) =
       (if va = [] \<and> vb = [] then []
        else replicate (length pairs) (static_tuple va vb ma mb t))"
    by (auto simp: e0(2) e1(2) static_tuple_def)
  then show ?thesis
    unfolding make_metadata_def sa sb by simp
qed

lemma nth_pd_Series: "i < length xs \<Longrightarrow> pd_Series xs ! i = (VInt (int i), xs ! i)"
  by (simp add: pd_Series_def range_index_def)

lemma direct_record_without_metadata:
  "direct_record dfa dfb va vb None None tv tm st =
   (\<lambda>p. VTuple [pair_tuple dfa dfb va vb tv p])"
  by (rule ext) (simp add: direct_record_def)

lemma direct_record_static:
  "direct_record dfa dfb va vb (Some ma) (Some mb) tv tm True =
   (\<lambda>p. VTuple [pair_tuple dfa dfb va vb tv p, static_tuple va vb ma mb tm])"
  by (rule ext) (simp add: direct_record_def)

lemma direct_record_columns:
  "direct_record dfa dfb va vb (Some ma) (Some mb) tv tm False =
   (\<lambda>p. VTuple [pair_tuple dfa dfb va vb tv p,
                 pair_tuple dfa dfb (listify ma) (listify mb) tm p])"
  by (rule ext) (simp add: direct_record_def)

lemma pd_Series_Nil [simp]: "pd_Series [] = []"
  by (simp add: pd_Series_def)

lemma zip_map_replicate:
  "zip (map f xs) (replicate (length xs) c) = map (\<lambda>x. (f x, c)) xs"
  by (induction xs) simp_all

lemma zip_map_same: "zip (map f xs) (map g xs) = map (\<lambda>x. (f x, g x)) xs"
  by (induction xs) simp_all

lemma series_direct:
  assumes wf: "well_formed_table dfa" "well_formed_table dfb"
      and names: "mi_names (pv_index vecs) = (None, None)"
      and recs: "has_records dfa (map fst (mi_pairs (pv_index vecs)))"
                "has_records dfb (map snd (mi_pairs (pv_index vecs)))"
      and cols: "has_columns dfa (listify va)" "has_columns dfb (listify vb)"
      and t: "\<not> not_callable tv" "\<not> not_callable tm"
      and direct: "fetched_directly dfa dfb (listify va) (listify vb) meta_a meta_b st"
  shows "FuseLinks_make_resolution_series
           (run_state self vecs (Some dfa) (Some dfb) preds sa sb)
           va vb meta_a meta_b tv tm st =
         Inr (direct_series dfa dfb (listify va) (listify vb) meta_a meta_b tv tm st
                (mi_pairs (pv_index vecs)))"
proof -
  let ?s = "run_state self vecs (Some dfa) (Some dfb) preds sa sb"
  let ?pairs = "mi_pairs (pv_index vecs)"
  let ?labels = "map (\<lambda>p. VTuple [fst p, snd p]) ?pairs"
  let ?va = "listify va" and ?vb = "listify vb"
  from unnamed_index [OF names] obtain f where
    f: "to_frame (pv_index vecs) = Inr f" and
    f0: "index_getitem (Some f) (VInt 0) = Inr (zip ?labels (map fst ?pairs))" and
    f1: "index_getitem (Some f) (VInt 1) = Inr (zip ?labels (map snd ?pairs))" and
    fl: "index_len (Some f) = Inr (length ?pairs)"
    by blast
  have tabs: "df_a ?s = Some dfa" "df_b ?s = Some dfb"
    and ix: "index ?s = Some f"
    by (simp_all add: run_state_fields [OF f])
  have e0: "index_getitem (index ?s) (VInt 0) = Inr (zip ?labels (map fst ?pairs))"
           "map snd (zip ?labels (map fst ?pairs)) = map fst ?pairs"
    and e1: "index_getitem (index ?s) (VInt 1) = Inr (zip ?labels (map snd ?pairs))"
            "map snd (zip ?labels (map snd ?pairs)) = map snd ?pairs"
    and len: "index_len (index ?s) = Inr (length ?pairs)"
    using f0 f1 fl by (simp_all add: ix)
  note V = value_data_direct [OF wf e0 e1 recs cols t(1)]
  note N = series_without_metadata [OF tabs t]
  note S = series_with_metadata [OF tabs t]
  show ?thesis
  proof (cases meta_a)
    case None
    with direct have mb: "meta_b = None"
      by (cases meta_b) (simp_all add: fetched_directly_def)
    show ?thesis
      unfolding None mb N
      by (simp add: V direct_series_def direct_record_without_metadata o_def)
  next
    case (Some ma)
    with direct obtain mb where mb: "meta_b = Some mb"
      by (cases meta_b) (simp_all add: fetched_directly_def)
    show ?thesis
    proof (cases st)
      case True
      note M = metadata_static [OF len e0 e1 t(2), of dfa dfb ?va ?vb ma mb None None]
      show ?thesis
        unfolding Some mb S using True
        by (simp add: V M direct_series_def direct_record_static o_def zip_map_replicate)
    next
      case False
      with direct Some mb have eq: "length ?va = length (listify ma)"
                                   "length ?vb = length (listify mb)"
        and mc: "has_columns dfa (listify ma)" "has_columns dfb (listify mb)"
        by (simp_all add: fetched_directly_def)
      have g: "fst (generalize_flags ?va (listify ma)) \<noteq> Some True"
              "fst (generalize_flags ?vb (listify mb)) \<noteq> Some True"
              "snd (generalize_flags ?va (listify ma)) \<noteq> Some True"
              "snd (generalize_flags ?vb (listify mb)) \<noteq> Some True"
        using eq by (simp_all add: generalize_flags_def)
      note M = metadata_direct [OF wf e0 e1 recs mc t(2) g(3,4), of ?va ?vb]
      have empty: "(?va = [] \<and> ?vb = []) = (listify ma = [] \<and> listify mb = [])"
        using eq by auto
      show ?thesis
        unfolding Some mb S using False
        by (simp add: V [OF g(1,2)] M direct_series_def direct_record_columns o_def empty
              zip_map_same)
    qed
  qed
qed

text \<open>
  C4. Take tables keyed by distinct record ids, with distinct column labels and one value
  per record in every column, an unnamed pair index whose ids the tables have, and a job
  that passes validation, names existing columns and generalizes nothing
  (no metadata, static metadata, or as many metadata columns as value columns on each
  side). Then the resolution series is built without error and is the aligned sequence of
  the specification: row \<open>i\<close> is the aligned pair record of pair \<open>i\<close>, whose values tuple
  holds the side-A columns at the pair's A record, in declared order, followed by the
  side-B columns at its B record. With at least one value column there is one row per pair,
  and row \<open>i\<close> of the job's output column is the strategy's result on the record of pair
  \<open>i\<close>.
\<close>

theorem direct_alignment:
  assumes wf: "well_formed_table dfa" "well_formed_table dfb"
      and names: "mi_names (pv_index vecs) = (None, None)"
      and recs: "has_records dfa (map fst (mi_pairs (pv_index vecs)))"
                "has_records dfb (map snd (mi_pairs (pv_index vecs)))"
      and cols: "has_columns dfa (listify va)" "has_columns dfb (listify vb)"
      and t: "\<not> not_callable tv" "\<not> not_callable tm"
      and direct: "fetched_directly dfa dfb (listify va) (listify vb) meta_a meta_b st"
  shows "FuseLinks_make_resolution_series
           (run_state self vecs (Some dfa) (Some dfb) preds sa sb)
           va vb meta_a meta_b tv tm st =
         Inr (direct_series dfa dfb (listify va) (listify vb) meta_a meta_b tv tm st
                (mi_pairs (pv_index vecs))) \<and>
         (listify va \<noteq> [] \<or> listify vb \<noteq> [] \<longrightarrow>
          length (direct_series dfa dfb (listify va) (listify vb) meta_a meta_b tv tm st
                    (mi_pairs (pv_index vecs))) = length (mi_pairs (pv_index vecs)) \<and>
          length (fst (resolve (run_state self vecs (Some dfa) (Some dfb) preds sa sb) f
                         (direct_series dfa dfb (listify va) (listify vb) meta_a meta_b tv tm st
                            (mi_pairs (pv_index vecs))) params g))
            = length (mi_pairs (pv_index vecs)) \<and>
          (\<forall>i < length (mi_pairs (pv_index vecs)).
             direct_series dfa dfb (listify va) (listify vb) meta_a meta_b tv tm st
               (mi_pairs (pv_index vecs)) ! i =
               (VInt (int i),
                direct_record dfa dfb (listify va) (listify vb) meta_a meta_b tv tm st
                  (mi_pairs (pv_index vecs) ! i)) \<and>
             (\<exists>gi. fst (resolve (run_state self vecs (Some dfa) (Some dfb) preds sa sb) f
                           (direct_series dfa dfb (listify va) (listify vb) meta_a meta_b
                              tv tm st (mi_pairs (pv_index vecs))) params g) ! i =
                    (VInt (int i),
                     fst (f (direct_record dfa dfb (listify va) (listify vb) meta_a meta_b
                               tv tm st (mi_pairs (pv_index vecs) ! i))
                            (star_args params) gi)))))"
proof -
  let ?s = "run_state self vecs (Some dfa) (Some dfb) preds sa sb"
  let ?pairs = "mi_pairs (pv_index vecs)"
  let ?rec = "direct_record dfa dfb (listify va) (listify vb) meta_a meta_b tv tm st"
  let ?ser = "direct_series dfa dfb (listify va) (listify vb) meta_a meta_b tv tm st ?pairs"
  note built = series_direct [OF wf names recs cols t direct, of self preds sa sb]
  have rows: "length ?ser = length ?pairs \<and>
              length (fst (resolve ?s f ?ser params g)) = length ?pairs \<and>
              (\<forall>i < length ?pairs.
                 ?ser ! i = (VInt (int i), ?rec (?pairs ! i)) \<and>
                 (\<exists>gi. fst (resolve ?s f ?ser params g) ! i =
                        (VInt (int i), fst (f (?rec (?pairs ! i)) (star_args params) gi))))"
    if some: "listify va \<noteq> [] \<or> listify vb \<noteq> []"
  proof -
    from some have ser: "?ser = pd_Series (map ?rec ?pairs)"
      by (auto simp: direct_series_def)
    have len: "length ?ser = length ?pairs" by (simp add: ser)
    have lenr: "length (fst (resolve ?s f ?ser params g)) = length ?pairs"
      using labels_resolve [of ?s f ?ser params g, THEN arg_cong, of length] len by simp
    have "?ser ! i = (VInt (int i), ?rec (?pairs ! i)) \<and>
          (\<exists>gi. fst (resolve ?s f ?ser params g) ! i =
                 (VInt (int i), fst (f (?rec (?pairs ! i)) (star_args params) gi)))"
      if i: "i < length ?pairs" for i
    proof -
      have n: "?ser ! i = (VInt (int i), ?rec (?pairs ! i))"
        using i by (simp add: ser nth_pd_Series)
      from i len have "i < length ?ser" by simp
      from nth_resolve [OF this, of ?s f params g] n show ?thesis by simp
    qed
    with len lenr show ?thesis by blast
  qed
  from built rows show ?thesis by blast
qed

lemma scenario_well_formed:
  "well_formed_table scenario_a" "well_formed_table scenario_b"
  "mi_names (pv_index scenario_vectors) = (None, None)"
  "has_records scenario_a (map fst (mi_pairs (pv_index scenario_vectors)))"
  "has_records scenario_b (map snd (mi_pairs (pv_index scenario_vectors)))"
  "has_columns scenario_a (listify (VStr ''name''))"
  "has_columns scenario_b (listify (VStr ''name''))"
  "fetched_directly scenario_a scenario_b (listify (VStr ''name'')) (listify (VStr ''name''))
     None None False"
  by (simp_all add: well_formed_table_def distinct_columns_def has_records_def has_columns_def
        fetched_directly_def scenario_a_def scenario_b_def scenario_vectors_def)

theorem direct_alignment_witness:
  "well_formed_table scenario_a \<and> well_formed_table scenario_b \<and>
   has_records scenario_a (map fst (mi_pairs (pv_index scenario_vectors))) \<and>
   has_records scenario_b (map snd (mi_pairs (pv_index scenario_vectors))) \<and>
   fetched_directly scenario_a scenario_b (listify (VStr ''name'')) (listify (VStr ''name''))
     None None False \<and>
   FuseLinks_make_resolution_series scenario_state (VStr ''name'') (VStr ''name'')
     None None None None False =
   Inr (direct_series scenario_a scenario_b [VStr ''name''] [VStr ''name''] None None None None
          False [(VStr ''id1'', VStr ''id2'')]) \<and>
   direct_series scenario_a scenario_b [VStr ''name''] [VStr ''name''] None None None None
     False [(VStr ''id1'', VStr ''id2'')] =
   [(VInt 0, VTuple [VTuple [VStr ''Jon'', VStr ''John'']])]"
proof -
  have ev: "direct_series scenario_a scenario_b [VStr ''name''] [VStr ''name''] None None
              None None False [(VStr ''id1'', VStr ''id2'')] =
            [(VInt 0, VTuple [VTuple [VStr ''Jon'', VStr ''John'']])]"
    by (simp add: direct_series_def direct_record_def pair_tuple_def cell_def series_get_def
          pd_Series_def range_index_def scenario_a_def scenario_b_def)
  have p: "mi_pairs (pv_index scenario_vectors) = [(VStr ''id1'', VStr ''id2'')]"
    by (simp add: scenario_vectors_def)
  from direct_alignment [OF scenario_well_formed(1-7) _ _ scenario_well_formed(8),
         of None None "new_engine (FuseLinks False False)" None "''_a''" "''_b''"
            first_value None 0]
       scenario_well_formed ev
  show ?thesis by (simp add: scenario_state_def p)
qed

section \<open>The fused table of directly fetched jobs\<close>

lemma resolve_queue_succeeds:
  "\<forall>j \<in> set q. \<exists>data. job_series self j = Inr (Some data) \<Longrightarrow>
   \<exists>cols g'. resolve_queue self q g = (Inr cols, g')"
proof (induction q arbitrary: g)
  case Nil
  then show ?case by simp
next
  case (Cons j jobs)
  then obtain data where d: "job_series self j = Inr (Some data)" by auto
  obtain col g1 where r: "resolve self (job_fun j) data (job_params j) g = (col, g1)"
    by (cases "resolve self (job_fun j) data (job_params j) g")
  from Cons obtain cols g' where "resolve_queue self jobs g1 = (Inr cols, g')"
    by fastforce
  with d r show ?case by simp
qed

lemma job_series_direct:
  assumes cls: "cls self = FuseLinks ua ub"
      and wf: "well_formed_table dfa" "well_formed_table dfb"
      and names: "mi_names (pv_index vecs) = (None, None)"
      and recs: "has_records dfa (map fst (mi_pairs (pv_index vecs)))"
                "has_records dfb (map snd (mi_pairs (pv_index vecs)))"
      and job: "direct_job dfa dfb j"
  shows "job_series (run_state self vecs (Some dfa) (Some dfb) preds sa sb) j =
         Inr (Some (pd_Series (map (job_record dfa dfb j) (mi_pairs (pv_index vecs)))))"
proof -
  let ?s = "run_state self vecs (Some dfa) (Some dfb) preds sa sb"
  from job have cols: "has_columns dfa (listify (job_values_a j))"
                      "has_columns dfb (listify (job_values_b j))"
    and t: "\<not> not_callable (job_transform_vals j)" "\<not> not_callable (job_transform_meta j)"
    and direct: "fetched_directly dfa dfb (listify (job_values_a j)) (listify (job_values_b j))
                   (job_meta_a j) (job_meta_b j) (job_static_meta j)"
    and some: "listify (job_values_a j) \<noteq> [] \<or> listify (job_values_b j) \<noteq> []"
    by (simp_all add: direct_job_def)
  have c: "cls ?s = FuseLinks ua ub" using cls by (simp add: run_state_keeps)
  from some have "direct_series dfa dfb (listify (job_values_a j)) (listify (job_values_b j))
          (job_meta_a j) (job_meta_b j) (job_transform_vals j) (job_transform_meta j)
          (job_static_meta j) (mi_pairs (pv_index vecs)) =
        pd_Series (map (job_record dfa dfb j) (mi_pairs (pv_index vecs)))"
    by (auto simp: direct_series_def job_record_def)
  with series_direct [OF wf names recs cols t direct, of self preds sa sb]
  show ?thesis by (simp add: job_series_def make_resolution_series_def c)
qed

text \<open>
  C2, amended. Take a \<^verbatim>\<open>FuseLinks\<close> engine with a non-empty queue of jobs that pass
  validation, name existing columns, at least one of them a value column, and generalize
  nothing, over tables keyed by distinct record ids with distinct column labels, and an
  unnamed pair index of \<open>n\<close> pairs whose ids the tables have. Then \<^verbatim>\<open>fuse\<close> returns a
  table. Each per-job output column has one row per pair, in pair order: row \<open>i\<close> is the
  result of the job's strategy on the aligned pair record of pair \<open>i\<close>. It is labelled by
  the positions \<open>0, ..., n - 1\<close> of its rows (the default index of \<^verbatim>\<open>pd.Series\<close>), not by
  the pair identifiers. The fused table is row-indexed by the same positions, and its
  columns are the output columns of the queued jobs, in queue order, labelled
  \<open>0, ..., k - 1\<close>.
\<close>

theorem fuse_table_positional:
  assumes cls: "cls self = FuseLinks ua ub"
      and queue: "resolution_queue self \<noteq> []"
      and wf: "well_formed_table dfa" "well_formed_table dfb"
      and names: "mi_names (pv_index vecs) = (None, None)"
      and recs: "has_records dfa (map fst (mi_pairs (pv_index vecs)))"
                "has_records dfb (map snd (mi_pairs (pv_index vecs)))"
      and jobs: "\<forall>j \<in> set (resolution_queue self). direct_job dfa dfb j"
  shows "\<exists>cols.
           fused_columns self vecs (Some dfa) (Some dfb) preds sa sb g = Inr cols \<and>
           length cols = length (resolution_queue self) \<and>
           (\<forall>k < length (resolution_queue self).
              map fst (cols ! k) = range_index (length (mi_pairs (pv_index vecs))) \<and>
              (\<forall>i < length (mi_pairs (pv_index vecs)). \<exists>gi.
                 snd (cols ! k ! i) =
                 fst (job_fun (resolution_queue self ! k)
                        (job_record dfa dfb (resolution_queue self ! k)
                           (mi_pairs (pv_index vecs) ! i))
                        (star_args (job_params (resolution_queue self ! k))) gi))) \<and>
           fst (fuse self vecs (Some dfa) (Some dfb) preds sa sb g) =
             Inr \<lparr>fr_index = range_index (length (mi_pairs (pv_index vecs))),
                  fr_columns = map (\<lambda>k. (VInt (int k), map snd (cols ! k)))
                                   [0..<length (resolution_queue self)]\<rparr>"
proof -
  let ?s = "run_state self vecs (Some dfa) (Some dfb) preds sa sb"
  let ?q = "resolution_queue self"
  let ?pairs = "mi_pairs (pv_index vecs)"
  let ?n = "length ?pairs"
  note f = to_frame_unnamed [OF names]
  have series: "job_series ?s j = Inr (Some (pd_Series (map (job_record dfa dfb j) ?pairs)))"
    if "j \<in> set ?q" for j
    using job_series_direct [OF cls wf names recs] jobs that by blast
  then have "\<forall>j \<in> set ?q. \<exists>data. job_series ?s j = Inr (Some data)" by blast
  from resolve_queue_succeeds [OF this, of g] obtain cols g' where
    rq: "resolve_queue ?s ?q g = (Inr cols, g')" by blast
  then have fc: "fused_columns self vecs (Some dfa) (Some dfb) preds sa sb g = Inr cols"
    by (simp add: fused_columns_running [OF f])
  from resolve_queue_columns [OF rq] have len: "length cols = length ?q"
    and each: "\<forall>k < length ?q. \<exists>data gk. job_series ?s (?q ! k) = Inr (Some data) \<and>
                 cols ! k = fst (resolve ?s (job_fun (?q ! k)) data (job_params (?q ! k)) gk)"
    by simp_all
  have col: "map fst (cols ! k) = range_index ?n \<and>
             (\<forall>i < ?n. \<exists>gi. snd (cols ! k ! i) =
                fst (job_fun (?q ! k) (job_record dfa dfb (?q ! k) (?pairs ! i))
                       (star_args (job_params (?q ! k))) gi))"
    if k: "k < length ?q" for k
  proof -
    let ?j = "?q ! k"
    let ?data = "pd_Series (map (job_record dfa dfb ?j) ?pairs)"
    from k have "?j \<in> set ?q" by simp
    from series [OF this] each k obtain gk where
      c: "cols ! k = fst (resolve ?s (job_fun ?j) ?data (job_params ?j) gk)" by auto
    have lab: "map fst (cols ! k) = range_index ?n"
      unfolding c by (simp add: labels_resolve)
    have "\<exists>gi. snd (cols ! k ! i) =
               fst (job_fun ?j (job_record dfa dfb ?j (?pairs ! i)) (star_args (job_params ?j)) gi)"
      if i: "i < ?n" for i
    proof -
      from i have "i < length ?data" by simp
      from nth_resolve [OF this, of ?s "job_fun ?j" "job_params ?j" gk] i
      show ?thesis unfolding c by (auto simp: nth_pd_Series)
    qed
    with lab show ?thesis by blast
  qed
  have ne: "cols \<noteq> []" using len queue by auto
  have "\<forall>c \<in> set cols. map fst c = range_index ?n"
  proof
    fix c assume "c \<in> set cols"
    then obtain k where "k < length cols" "c = cols ! k" by (auto simp: in_set_conv_nth)
    with col len show "map fst c = range_index ?n" by simp
  qed
  from pd_concat_aligned [OF ne this] fc len
  have "fst (fuse self vecs (Some dfa) (Some dfb) preds sa sb g) =
          Inr \<lparr>fr_index = range_index ?n,
               fr_columns = map (\<lambda>k. (VInt (int k), map snd (cols ! k))) [0..<length ?q]\<rparr>"
    by (simp add: fuse_result)
  with fc len col show ?thesis by blast
qed

theorem fuse_table_positional_witness:
  "cls scenario_engine = FuseLinks False False \<and>
   resolution_queue scenario_engine \<noteq> [] \<and>
   well_formed_table scenario_a \<and> well_formed_table scenario_b \<and>
   has_records scenario_a (map fst (mi_pairs (pv_index scenario_vectors))) \<and>
   has_records scenario_b (map snd (mi_pairs (pv_index scenario_vectors))) \<and>
   direct_job scenario_a scenario_b (hd (resolution_queue scenario_engine)) \<and>
   (\<exists>cols.
      fused_columns scenario_engine scenario_vectors (Some scenario_a) (Some scenario_b) None
        ''_a'' ''_b'' 0 = Inr cols \<and>
      length cols = length (resolution_queue scenario_engine) \<and>
      fst (fuse scenario_engine scenario_vectors (Some scenario_a) (Some scenario_b) None
             ''_a'' ''_b'' 0) =
        Inr \<lparr>fr_index = range_index (length (mi_pairs (pv_index scenario_vectors))),
             fr_columns = map (\<lambda>k. (VInt (int k), map snd (cols ! k)))
                              [0..<length (resolution_queue scenario_engine)]\<rparr>)"
proof -
  have q: "resolution_queue scenario_engine =
           [\<lparr>job_fun = first_value, job_values_a = VStr ''name'', job_values_b = VStr ''name'',
             job_meta_a = None, job_meta_b = None, job_transform_vals = None,
             job_transform_meta = None, job_static_meta = False, job_params = None,
             job_kwargs = []\<rparr>]"
    by (simp add: scenario_engine_def no_gossiping_def queue_resolve_def new_engine_def)
  have c: "cls scenario_engine = FuseLinks False False"
    by (simp add: scenario_engine_def no_gossiping_def queue_resolve_def new_engine_def)
  have ne: "resolution_queue scenario_engine \<noteq> []" by (simp add: q)
  have j: "\<forall>j \<in> set (resolution_queue scenario_engine). direct_job scenario_a scenario_b j"
    by (simp add: q direct_job_def has_columns_def fetched_directly_def
          scenario_a_def scenario_b_def)
  have h: "direct_job scenario_a scenario_b (hd (resolution_queue scenario_engine))"
    using j by (simp add: q)
  from fuse_table_positional [OF c ne scenario_well_formed(1,2,3,4,5) j,
         of None "''_a''" "''_b''" 0]
       c ne scenario_well_formed(1,2,4,5) h
  show ?thesis by blast
qed


end
